theory Spec2Isabelle
  imports Main "HOL-Library.Sublist" "HOL-Library.AList" "HOL-Library.Multiset"
begin

section \<open>Python values, messages and errors\<close>

text \<open>
  A Slack message is a Python dict. The keys the code reads are modelled as the fields
  of a record; a field is \<open>None\<close> when the key is absent and \<open>Some v\<close> when it is present,
  where the value \<open>v\<close> is Python's \<open>None\<close> or a string (the storage layer writes
  \<open>'thread_ts': None\<close> for messages outside a thread, and \<open>d.get(k, default)\<close> tells the
  two apart). The \<open>text\<close> key, when present, holds a string.
\<close>

datatype pyval = PNone | PStr string

record msg =
  m_id :: "pyval option"
  m_ts :: "pyval option"
  m_thread_ts :: "pyval option"
  m_text :: "string option"
  m_user :: "pyval option"
  m_channel_name :: "pyval option"
  m_channel_id :: "pyval option"
  m_datetime :: "pyval option"

text \<open>
  The exceptions. \<open>KeyError\<close> carries the missing key, a string; the others carry their
  message. \<open>CollaboratorError\<close> stands for an exception of a class of a library behind the
  program (the API client, the vector store).
\<close>

datatype error =
    TypeError string
  | ValueError string
  | AttributeError string
  | OverflowError string
  | KeyError string
  | CollaboratorError string

text \<open>Truthiness of a value: \<open>None\<close> and the empty string are falsy.\<close>

definition truthy :: "pyval \<Rightarrow> bool" where
  "truthy v = (case v of PNone \<Rightarrow> False | PStr s \<Rightarrow> s \<noteq> [])"

text \<open>\<open>a or b\<close>.\<close>

definition py_or :: "pyval \<Rightarrow> pyval \<Rightarrow> pyval" where
  "py_or a b = (if truthy a then a else b)"

text \<open>\<open>d.get(k)\<close> and \<open>d.get(k, default)\<close> on a field.\<close>

definition py_get :: "pyval option \<Rightarrow> pyval" where
  "py_get f = (case f of None \<Rightarrow> PNone | Some v \<Rightarrow> v)"

definition py_get_default :: "pyval option \<Rightarrow> pyval \<Rightarrow> pyval" where
  "py_get_default f d = (case f of None \<Rightarrow> d | Some v \<Rightarrow> v)"

text \<open>\<open>msg.get('text', '')\<close>.\<close>

definition get_text :: "msg \<Rightarrow> string" where
  "get_text m = (case m_text m of None \<Rightarrow> [] | Some t \<Rightarrow> t)"

text \<open>\<open>str(v)\<close>, as an f-string formats a value.\<close>

definition py_str :: "pyval \<Rightarrow> string" where
  "py_str v = (case v of PNone \<Rightarrow> ''None'' | PStr s \<Rightarrow> s)"

section \<open>Strings\<close>

text \<open>
  A string is a list of code points, and a \<open>char\<close> is a code point below U+0100: the model
  covers the texts written in that range (ASCII and the Latin-1 supplement), and
  \<open>of_char c\<close> is the code point of \<open>c\<close>. \<open>a in b\<close> on strings is \<open>sublist a b\<close>.

  \<open>str.isspace()\<close>, which \<open>str.strip()\<close> and the class \<open>\s\<close> of a \<open>str\<close> pattern follow: below
  U+0100 the whitespace characters are U+0009 to U+000D, U+001C to U+0020, U+0085 and
  U+00A0.
\<close>

definition is_space :: "char \<Rightarrow> bool" where
  "is_space c =
    (let n = (of_char c :: nat)
     in (9 \<le> n \<and> n \<le> 13) \<or> (28 \<le> n \<and> n \<le> 32) \<or> n = 133 \<or> n = 160)"

definition py_strip :: "string \<Rightarrow> string" where
  "py_strip s = rev (dropWhile is_space (rev (dropWhile is_space s)))"

text \<open>
  \<open>str.lower()\<close>: below U+0100 the letters with a lowercase form are A to Z, U+00C0 to
  U+00D6 and U+00D8 to U+00DE, and the lowercase form is 32 code points further.
\<close>

definition lower_char :: "char \<Rightarrow> char" where
  "lower_char c =
    (let n = (of_char c :: nat)
     in if (65 \<le> n \<and> n \<le> 90) \<or> (192 \<le> n \<and> n \<le> 214) \<or> (216 \<le> n \<and> n \<le> 222)
        then char_of (n + 32) else c)"

definition py_lower :: "string \<Rightarrow> string" where
  "py_lower s = map lower_char s"

text \<open>A string between two apostrophes, as the messages of Python's exceptions quote a name.\<close>

definition single_quoted :: "string \<Rightarrow> string" where
  "single_quoted s = CHR 0x27 # s @ [CHR 0x27]"

text \<open>
  \<open>repr(s)\<close> of a string. The quote is the apostrophe, or the double quote when the string
  has an apostrophe and no double quote. The backslash and the quote are escaped with a
  backslash, tab, line feed and carriage return are written \<open>\t\<close>, \<open>\n\<close>, \<open>\r\<close>, and any other
  character that is not printable (below U+0020, U+007F to U+00A0, U+00AD) is written
  \<open>\xhh\<close> with two lowercase hexadecimal digits.
\<close>

definition printable :: "char \<Rightarrow> bool" where
  "printable c =
    (let n = (of_char c :: nat) in (32 \<le> n \<and> n \<le> 126) \<or> (161 \<le> n \<and> n \<noteq> 173))"

definition hex_digit :: "nat \<Rightarrow> char" where
  "hex_digit d = (if d < 10 then char_of (48 + d) else char_of (87 + d))"

definition repr_char :: "char \<Rightarrow> char \<Rightarrow> string" where
  "repr_char quote c =
    (if c = CHR 0x5C \<or> c = quote then [CHR 0x5C, c]
     else if c = CHR 0x09 then [CHR 0x5C, CHR ''t'']
     else if c = CHR 0x0A then [CHR 0x5C, CHR ''n'']
     else if c = CHR 0x0D then [CHR 0x5C, CHR ''r'']
     else if \<not> printable c
     then [CHR 0x5C, CHR ''x'', hex_digit ((of_char c :: nat) div 16),
           hex_digit ((of_char c :: nat) mod 16)]
     else [c])"

definition py_repr :: "string \<Rightarrow> string" where
  "py_repr s =
    (let quote = (if CHR 0x27 \<in> set s \<and> CHR 0x22 \<notin> set s then CHR 0x22 else CHR 0x27)
     in quote # concat (map (repr_char quote) s) @ [quote])"

text \<open>\<open>str(e)\<close> of an exception: its message; for a \<open>KeyError\<close>, the \<open>repr\<close> of the key.\<close>

fun err_str :: "error \<Rightarrow> string" where
  "err_str (TypeError s) = s"
| "err_str (ValueError s) = s"
| "err_str (AttributeError s) = s"
| "err_str (OverflowError s) = s"
| "err_str (KeyError k) = py_repr k"
| "err_str (CollaboratorError s) = s"

section \<open>The profile-link pattern of \<open>candidate_extractor.py\<close>\<close>

text \<open>A literal at the start of the input: the rest of the input when it matches.\<close>

fun match_literal :: "string \<Rightarrow> string \<Rightarrow> string option" where
  "match_literal [] s = Some s"
| "match_literal (p # ps) [] = None"
| "match_literal (p # ps) (c # cs) = (if p = c then match_literal ps cs else None)"

text \<open>An optional literal \<open>(?:lit)?\<close>: taken when it is there.\<close>

definition match_optional :: "string \<Rightarrow> string \<Rightarrow> string" where
  "match_optional p s = (case match_literal p s of Some r \<Rightarrow> r | None \<Rightarrow> s)"

text \<open>
  \<open>https?://(?:www\.)?linkedin\.com/in/\<close> at the start of the input: the matched text
  and the rest. No alternative of the two optional parts can succeed where the greedy one
  fails (\<open>://\<close> does not start with \<open>s\<close>, \<open>linkedin\<close> does not start with \<open>w\<close>),
  so backtracking never changes the result.
\<close>

definition match_profile_prefix :: "string \<Rightarrow> (string \<times> string) option" where
  "match_profile_prefix s =
    (case match_literal ''http'' s of
       None \<Rightarrow> None
     | Some r1 \<Rightarrow>
        (case match_literal ''://'' (match_optional ''s'' r1) of
           None \<Rightarrow> None
         | Some r2 \<Rightarrow>
            (case match_literal ''linkedin.com/in/'' (match_optional ''www.'' r2) of
               None \<Rightarrow> None
             | Some r3 \<Rightarrow> Some (take (length s - length r3) s, r3))))"

text \<open>
  \<open>LINKEDIN_REGEX = <(https?://(?:www\.)?linkedin\.com/in/[^>|]+)\|([^>]+)>\<close> matched at
  the start of the input: group 1, group 2 and the input after the match. The two
  negated classes are greedy, and the character that has to follow each of them is
  outside the class, so the longest run is the only one that can match.
\<close>

definition url_char :: "char \<Rightarrow> bool" where
  "url_char c = (c \<noteq> CHR ''>'' \<and> c \<noteq> CHR ''|'')"

definition label_char :: "char \<Rightarrow> bool" where
  "label_char c = (c \<noteq> CHR ''>'')"

definition linkedin_match_at :: "string \<Rightarrow> (string \<times> string \<times> string) option" where
  "linkedin_match_at s =
    (case match_literal ''<'' s of
       None \<Rightarrow> None
     | Some s0 \<Rightarrow>
        (case match_profile_prefix s0 of
           None \<Rightarrow> None
         | Some (pre, r) \<Rightarrow>
            (let slug = takeWhile url_char r; r1 = dropWhile url_char r in
             if slug = [] then None
             else
               (case match_literal ''|'' r1 of
                  None \<Rightarrow> None
                | Some r2 \<Rightarrow>
                   (let label = takeWhile label_char r2; r3 = dropWhile label_char r2 in
                    if label = [] then None
                    else
                      (case match_literal ''>'' r3 of
                         None \<Rightarrow> None
                       | Some r4 \<Rightarrow> Some (pre @ slug, label, r4)))))))"

lemma match_literal_length:
  "match_literal p s = Some r \<Longrightarrow> length s = length p + length r"
  by (induction p s rule: match_literal.induct) (auto split: if_splits)

lemma match_optional_length: "length (match_optional p s) \<le> length s"
  by (auto simp: match_optional_def dest: match_literal_length split: option.splits)

lemma match_profile_prefix_length:
  assumes "match_profile_prefix s = Some (pre, r)"
  shows "length r < length s"
proof -
  from assms obtain r1 r2 where
    r1: "match_literal ''http'' s = Some r1" and
    r2: "match_literal ''://'' (match_optional ''s'' r1) = Some r2" and
    r3: "match_literal ''linkedin.com/in/'' (match_optional ''www.'' r2) = Some r"
    by (auto simp: match_profile_prefix_def split: option.splits)
  have "length r1 < length s"
    using match_literal_length [OF r1] by simp
  moreover have "length r2 \<le> length r1"
    using match_literal_length [OF r2] match_optional_length [of "''s''" r1] by simp
  moreover have "length r \<le> length r2"
    using match_literal_length [OF r3] match_optional_length [of "''www.''" r2] by simp
  ultimately show ?thesis by simp
qed

lemma linkedin_match_at_length:
  assumes "linkedin_match_at s = Some (g1, g2, r)"
  shows "length r < length s"
proof -
  from assms obtain s0 pre r0 r2 where
    s0: "match_literal ''<'' s = Some s0" and
    pre: "match_profile_prefix s0 = Some (pre, r0)" and
    r2: "match_literal ''|'' (dropWhile url_char r0) = Some r2" and
    r: "match_literal ''>'' (dropWhile label_char r2) = Some r"
    by (auto simp: linkedin_match_at_def Let_def split: option.splits if_splits)
  have "length r \<le> length r2"
    using match_literal_length [OF r] length_dropWhile_le [of label_char r2] by simp
  moreover have "length r2 \<le> length r0"
    using match_literal_length [OF r2] length_dropWhile_le [of url_char r0] by simp
  moreover have "length r0 < length s0"
    by (rule match_profile_prefix_length [OF pre])
  moreover have "length s0 \<le> length s"
    using match_literal_length [OF s0] by simp
  ultimately show ?thesis by simp
qed

text \<open>
  \<open>LINKEDIN_REGEX.finditer(text)\<close>: the matches from left to right, without overlap. After
  a match the scan goes on behind it; where no match starts, it moves on by one character.
\<close>

function finditer :: "string \<Rightarrow> (string \<times> string) list" where
  "finditer [] = []"
| "finditer (c # cs) =
    (case linkedin_match_at (c # cs) of
       None \<Rightarrow> finditer cs
     | Some (g1, g2, r) \<Rightarrow> (g1, g2) # finditer r)"
  by pat_completeness auto
termination
  by (relation "measure length") (auto dest: linkedin_match_at_length)

section \<open>\<open>CandidateExtractor\<close>: candidates and association bundles\<close>

record candidate =
  c_name :: string
  c_linkedin_url :: string
  c_message_id :: pyval
  c_timestamp :: pyval
  c_channel :: string
  c_user :: pyval
  c_text :: string

record assoc_bundle =
  b_anchor :: candidate
  b_threads :: "msg list"
  b_direct :: "msg list"
  b_fuzzy :: "msg list"

text \<open>
  The extractor's fields. The two dicts keep insertion order, and an assignment to a key
  that is there keeps the key's place: \<open>AList.update\<close>.
\<close>

record extractor =
  candidates :: "candidate list"
  candidate_map :: "(string \<times> candidate) list"
  associations :: "(string \<times> assoc_bundle) list"

definition init_state :: extractor where
  "init_state = \<lparr>candidates = [], candidate_map = [], associations = []\<rparr>"

definition mk_candidate :: "msg \<Rightarrow> string \<Rightarrow> string \<times> string \<Rightarrow> candidate" where
  "mk_candidate m channel_name mt =
    \<lparr>c_name = py_strip (snd mt),
     c_linkedin_url = py_strip (fst mt),
     c_message_id = py_or (py_get (m_id m)) (py_get (m_ts m)),
     c_timestamp = py_get (m_ts m),
     c_channel = channel_name,
     c_user = py_get_default (m_user m) (PStr []),
     c_text = get_text m\<rparr>"

definition add_candidate :: "candidate \<Rightarrow> extractor \<Rightarrow> extractor" where
  "add_candidate c s =
    \<lparr>candidates = candidates s @ [c],
     candidate_map = AList.update (c_linkedin_url c) c (candidate_map s),
     associations =
       AList.update (c_linkedin_url c)
         \<lparr>b_anchor = c, b_threads = [], b_direct = [], b_fuzzy = []\<rparr> (associations s)\<rparr>"

definition extract_message :: "string \<Rightarrow> msg \<Rightarrow> extractor \<Rightarrow> extractor" where
  "extract_message channel_name m s =
    fold (\<lambda>mt. add_candidate (mk_candidate m channel_name mt)) (finditer (get_text m)) s"

text \<open>\<open>extract_candidates\<close>; the list it returns is \<open>candidates\<close> of the new state.\<close>

definition extract_candidates :: "msg list \<Rightarrow> string \<Rightarrow> extractor \<Rightarrow> extractor" where
  "extract_candidates messages channel_name s = fold (extract_message channel_name) messages s"

section \<open>The association stages\<close>

text \<open>
  \<open>self.associations[url][key].append(msg)\<close>. Every method assigns the two dicts under the
  same key and never deletes one, so a URL of \<open>candidate_map\<close> or of the thread map is a
  key of \<open>associations\<close>.
\<close>

definition append_threads :: "string \<Rightarrow> msg \<Rightarrow> extractor \<Rightarrow> extractor" where
  "append_threads url m s =
    s\<lparr>associations := AList.map_entry url (\<lambda>b. b\<lparr>b_threads := b_threads b @ [m]\<rparr>) (associations s)\<rparr>"

definition append_direct :: "string \<Rightarrow> msg \<Rightarrow> extractor \<Rightarrow> extractor" where
  "append_direct url m s =
    s\<lparr>associations := AList.map_entry url (\<lambda>b. b\<lparr>b_direct := b_direct b @ [m]\<rparr>) (associations s)\<rparr>"

definition append_fuzzy :: "string \<Rightarrow> msg \<Rightarrow> extractor \<Rightarrow> extractor" where
  "append_fuzzy url m s =
    s\<lparr>associations := AList.map_entry url (\<lambda>b. b\<lparr>b_fuzzy := b_fuzzy b @ [m]\<rparr>) (associations s)\<rparr>"

text \<open>
  \<open>thread_map = {c['anchor']['message_id']: url for url, c in self.associations.items()}\<close>:
  a later URL with the same anchor message replaces an earlier one.
\<close>

definition thread_map :: "(string \<times> assoc_bundle) list \<Rightarrow> (pyval \<times> string) list" where
  "thread_map assoc =
    fold (\<lambda>(url, b). AList.update (c_message_id (b_anchor b)) url) assoc []"

definition threads_step :: "(pyval \<times> string) list \<Rightarrow> msg \<Rightarrow> extractor \<Rightarrow> extractor" where
  "threads_step tm m s =
    (let thread_ts = py_get (m_thread_ts m) in
     if truthy thread_ts \<and> map_of tm thread_ts \<noteq> None \<and> py_get (m_ts m) \<noteq> thread_ts
     then (case map_of tm thread_ts of None \<Rightarrow> s | Some url \<Rightarrow> append_threads url m s)
     else s)"

definition associate_threads :: "msg list \<Rightarrow> extractor \<Rightarrow> extractor" where
  "associate_threads messages s = fold (threads_step (thread_map (associations s))) messages s"

definition direct_step :: "msg \<Rightarrow> string \<times> candidate \<Rightarrow> extractor \<Rightarrow> extractor" where
  "direct_step m uc s =
    (let url = fst uc; candidate = snd uc; text = get_text m in
     if sublist url text \<or> sublist (py_lower (c_name candidate)) (py_lower text)
     then
       if py_get (m_id m) = c_message_id candidate then s
       else if \<not> truthy (py_get (m_thread_ts m))
               \<or> py_get (m_thread_ts m) \<noteq> c_message_id candidate
       then append_direct url m s
       else s
     else s)"

definition associate_direct_mentions :: "msg list \<Rightarrow> extractor \<Rightarrow> extractor" where
  "associate_direct_mentions messages s =
    fold (\<lambda>m s'. fold (direct_step m) (candidate_map s') s') messages s"

text \<open>
  \<open>associate_fuzzy\<close>. The judge is \<open>rag_backend.semantic_search(text, n_results=3,
  channel=channel_name)\<close>, a collaborator that the method calls once for every pair of a
  message and a candidate that it does not skip. \<open>judge n text\<close> is what the call number \<open>n\<close>
  of a run of the method (the first call is number 0) answers for the text: the documents,
  or the exception it raises. The answer may change from call to call, so the judge can
  answer for one candidate and raise for the next one of the same message.

  The method has no handler: an exception leaves it at once, with the lists as they are
  at that moment. \<open>fuzzy_candidates\<close> is the inner loop and \<open>fuzzy_messages\<close> the outer one, on
  the extractor and the number of calls made so far; the result is the pair of both, and
  the exception if one was raised. \<open>self.associations[url]\<close> raises \<open>KeyError\<close> for a URL
  that is not a key.
\<close>

type_synonym judge = "nat \<Rightarrow> string \<Rightarrow> error + string list"

fun fuzzy_candidates ::
  "judge \<Rightarrow> msg \<Rightarrow> (string \<times> candidate) list \<Rightarrow> extractor \<times> nat
    \<Rightarrow> (extractor \<times> nat) \<times> error option" where
  "fuzzy_candidates search m [] (s, n) = ((s, n), None)"
| "fuzzy_candidates search m ((url, candidate) # rest) (s, n) =
    (case map_of (associations s) url of
       None \<Rightarrow> ((s, n), Some (KeyError url))
     | Some b \<Rightarrow>
        if m \<in> set (b_threads b) \<or> m \<in> set (b_direct b)
           \<or> py_get (m_id m) = c_message_id candidate
        then fuzzy_candidates search m rest (s, n)
        else
          (case search n (get_text m) of
             Inl e \<Rightarrow> ((s, n), Some e)
           | Inr top_docs \<Rightarrow>
              if sublist (c_name candidate) (concat top_docs)
              then fuzzy_candidates search m rest (append_fuzzy url m s, Suc n)
              else fuzzy_candidates search m rest (s, Suc n)))"

fun fuzzy_messages ::
  "judge \<Rightarrow> msg list \<Rightarrow> extractor \<times> nat \<Rightarrow> (extractor \<times> nat) \<times> error option" where
  "fuzzy_messages search [] sn = (sn, None)"
| "fuzzy_messages search (m # messages) sn =
    (case fuzzy_candidates search m (candidate_map (fst sn)) sn of
       (sn', Some e) \<Rightarrow> (sn', Some e)
     | (sn', None) \<Rightarrow> fuzzy_messages search messages sn')"

text \<open>The method: the extractor it leaves, and the exception if it raised one.\<close>

definition associate_fuzzy :: "judge \<Rightarrow> msg list \<Rightarrow> extractor \<Rightarrow> extractor \<times> error option" where
  "associate_fuzzy search messages s =
    (case fuzzy_messages search messages (s, 0) of (sn, r) \<Rightarrow> (fst sn, r))"

text \<open>\<open>get_candidate_associations\<close>: \<open>self.associations.get(linkedin_url)\<close>.\<close>

definition get_candidate_associations :: "extractor \<Rightarrow> string \<Rightarrow> assoc_bundle option" where
  "get_candidate_associations s linkedin_url = map_of (associations s) linkedin_url"

section \<open>\<open>SlackRAGBackend\<close>: query optimisation and semantic search\<close>

text \<open>
  The collaborators. \<open>llm system user\<close> is \<open>claude.messages.create(...)\<close> followed by
  \<open>response.content[0].text\<close>: the answer text, or the exception raised on the way.
  \<open>collection n_results where text\<close> is \<open>self.collection.query(query_texts=[text], ...)\<close>: the
  value of \<open>results["documents"]\<close>, one list of documents per query text, or the exception.
\<close>

type_synonym llm = "string \<Rightarrow> string \<Rightarrow> error + string"

record where_filter =
  w_channel :: "pyval option"
  w_gte :: "pyval option"
  w_lte :: "pyval option"

type_synonym collection = "string \<Rightarrow> nat \<Rightarrow> where_filter option \<Rightarrow> error + string list list"

definition optimizer_system_prompt :: string where
  "optimizer_system_prompt =
    ''You are an assistant that helps optimize search queries. '' @
    ''Provide a more precise or expanded version of the given query to improve search results.''"

definition optimize_query_with_claude :: "llm \<Rightarrow> string \<Rightarrow> string" where
  "optimize_query_with_claude claude query =
    (case claude optimizer_system_prompt
            (''Optimize the following query for better search results: '' @ query) of
       Inr text \<Rightarrow> text
     | Inl e \<Rightarrow> ''[ERROR] Claude API error: '' @ err_str e)"

text \<open>The \<open>where\<close> dict of \<open>semantic_search\<close>; \<open>None\<close> when it stays empty.\<close>

definition build_where :: "pyval \<Rightarrow> pyval \<Rightarrow> pyval \<Rightarrow> where_filter option" where
  "build_where channel start_date end_date =
    (let w = \<lparr>w_channel = (if truthy channel then Some channel else None),
              w_gte = (if truthy start_date then Some start_date else None),
              w_lte = (if truthy end_date then Some end_date else None)\<rparr>
     in if truthy channel \<or> truthy start_date \<or> truthy end_date then Some w else None)"

text \<open>
  Lines 131 to 142 of \<open>semantic_search\<close>: the query sent to the collection with a given
  text, and \<open>results["documents"][0] if results["documents"] else []\<close>.
\<close>

definition query_collection ::
  "collection \<Rightarrow> string \<Rightarrow> nat \<Rightarrow> pyval \<Rightarrow> pyval \<Rightarrow> pyval \<Rightarrow> error + string list" where
  "query_collection coll text n_results channel start_date end_date =
    (case coll text n_results (build_where channel start_date end_date) of
       Inl e \<Rightarrow> Inl e
     | Inr documents \<Rightarrow> Inr (case documents of [] \<Rightarrow> [] | d # _ \<Rightarrow> d))"

definition semantic_search ::
  "llm \<Rightarrow> collection \<Rightarrow> string \<Rightarrow> nat \<Rightarrow> pyval \<Rightarrow> pyval \<Rightarrow> pyval \<Rightarrow> error + string list" where
  "semantic_search claude coll query n_results channel start_date end_date =
    (let optimized_query = optimize_query_with_claude claude query
     in query_collection coll optimized_query n_results channel start_date end_date)"

section \<open>\<open>SlackRAGBackend\<close>: the context builders\<close>

text \<open>
  \<open>_get_channel_name\<close> and \<open>_get_user_name\<close> read the \<open>channels\<close> and \<open>users\<close> tables (the cache
  in front of them returns what the table returned): the \<open>name\<close> column of the row with the
  given id, if there is one.
\<close>

record tables =
  channel_names :: "pyval \<Rightarrow> pyval option"
  user_names :: "pyval \<Rightarrow> pyval option"

definition get_channel_name :: "tables \<Rightarrow> pyval \<Rightarrow> pyval" where
  "get_channel_name t channel_id =
    (case channel_names t channel_id of Some n \<Rightarrow> n | None \<Rightarrow> channel_id)"

definition get_user_name :: "tables \<Rightarrow> pyval \<Rightarrow> pyval" where
  "get_user_name t user_id =
    (case user_names t user_id of Some n \<Rightarrow> n | None \<Rightarrow> py_or user_id (PStr ''Unknown User''))"

text \<open>
  \<open>float(...)\<close> and \<open>datetime.fromtimestamp(...).strftime('%Y-%m-%d %H:%M:%S')\<close>. A float is a
  value of a linear order \<open>'k\<close> (every float but NaN); \<open>float_of\<close> is \<open>float\<close> on a string, which
  raises \<open>ValueError\<close> on a string that is no number, \<open>float_zero\<close> is \<open>float(0)\<close>.
\<close>

record 'k clock =
  float_of :: "string \<Rightarrow> error + 'k"
  float_zero :: 'k
  strftime :: "'k \<Rightarrow> error + string"

definition py_float :: "'k clock \<Rightarrow> pyval \<Rightarrow> error + 'k" where
  "py_float ck v =
    (case v of
       PNone \<Rightarrow> Inl (TypeError (''float() argument must be a string or a real number, not ''
                           @ single_quoted ''NoneType''))
     | PStr s \<Rightarrow> float_of ck s)"

text \<open>\<open>float(x.get('ts', 0))\<close>.\<close>

definition ts_key :: "'k clock \<Rightarrow> msg \<Rightarrow> error + 'k" where
  "ts_key ck m = (case m_ts m of None \<Rightarrow> Inr (float_zero ck) | Some v \<Rightarrow> py_float ck v)"

definition nl :: string where
  "nl = [CHR 0x0A]"

text \<open>\<open>sep.join(xs)\<close>.\<close>

fun py_join :: "string \<Rightarrow> string list \<Rightarrow> string" where
  "py_join sep [] = []"
| "py_join sep [x] = x"
| "py_join sep (x # y # ys) = x @ sep @ py_join sep (y # ys)"

text \<open>
  \<open>thread_msgs.sort(key=lambda x: float(x.get('ts', 0)))\<close>: the keys are computed first, in
  list order, and the first one that raises ends the call; the sort is stable.
\<close>

fun keyed :: "'k clock \<Rightarrow> msg list \<Rightarrow> error + ('k \<times> msg) list" where
  "keyed ck [] = Inr []"
| "keyed ck (m # ms) =
    (case ts_key ck m of
       Inl e \<Rightarrow> Inl e
     | Inr k \<Rightarrow> (case keyed ck ms of Inl e \<Rightarrow> Inl e | Inr ks \<Rightarrow> Inr ((k, m) # ks)))"

definition sort_by_ts :: "('k::linorder) clock \<Rightarrow> msg list \<Rightarrow> error + msg list" where
  "sort_by_ts ck ms =
    (case keyed ck ms of Inl e \<Rightarrow> Inl e | Inr ks \<Rightarrow> Inr (map snd (sort_key fst ks)))"

text \<open>\<open>msg.get('thread_ts', msg.get('ts'))\<close> and the grouping dict \<open>thread_messages\<close>.\<close>

definition thread_key :: "msg \<Rightarrow> pyval" where
  "thread_key m = py_get_default (m_thread_ts m) (py_get (m_ts m))"

definition group_threads :: "msg list \<Rightarrow> (pyval \<times> msg list) list" where
  "group_threads messages =
    fold (\<lambda>m. map_default (thread_key m) [m] (\<lambda>ms. ms @ [m])) messages []"

text \<open>A dict is truthy when it has a key.\<close>

definition msg_truthy :: "msg \<Rightarrow> bool" where
  "msg_truthy m =
    (m_id m \<noteq> None \<or> m_ts m \<noteq> None \<or> m_thread_ts m \<noteq> None \<or> m_text m \<noteq> None
     \<or> m_user m \<noteq> None \<or> m_channel_name m \<noteq> None \<or> m_channel_id m \<noteq> None
     \<or> m_datetime m \<noteq> None)"

definition thread_replies :: "pyval \<Rightarrow> msg list \<Rightarrow> msg list" where
  "thread_replies thread_ts thread_msgs = filter (\<lambda>m. py_get (m_ts m) \<noteq> thread_ts) thread_msgs"

fun render_replies :: "tables \<Rightarrow> 'k clock \<Rightarrow> msg list \<Rightarrow> error + string list" where
  "render_replies t ck [] = Inr []"
| "render_replies t ck (reply # replies) =
    (case ts_key ck reply of
       Inl e \<Rightarrow> Inl e
     | Inr k \<Rightarrow>
        (case strftime ck k of
           Inl e \<Rightarrow> Inl e
         | Inr stamp \<Rightarrow>
            (case render_replies t ck replies of
               Inl e \<Rightarrow> Inl e
             | Inr lines \<Rightarrow>
                Inr ((''- '' @ py_str (get_user_name t (py_get (m_user reply))) @ '': '' @ get_text reply)
                     # (''  '' @ stamp) # lines))))"

text \<open>The body of the loop over \<open>thread_messages.items()\<close>: the lines one thread adds.\<close>

definition render_thread :: "tables \<Rightarrow> ('k::linorder) clock \<Rightarrow> pyval \<times> msg list \<Rightarrow> error + string list" where
  "render_thread t ck item =
    (let thread_ts = fst item in
     case sort_by_ts ck (snd item) of
       Inl e \<Rightarrow> Inl e
     | Inr thread_msgs \<Rightarrow>
        (case find (\<lambda>m. py_get (m_ts m) = thread_ts) thread_msgs of
           None \<Rightarrow> Inr []
         | Some parent_msg \<Rightarrow>
            if \<not> msg_truthy parent_msg then Inr []
            else
              (let channel_name = py_or (py_get (m_channel_name parent_msg))
                                    (get_channel_name t (py_get (m_channel_id parent_msg)));
                   user_name = get_user_name t (py_get (m_user parent_msg))
               in case py_float ck thread_ts of
                    Inl e \<Rightarrow> Inl e
                  | Inr k \<Rightarrow>
                     (case strftime ck k of
                        Inl e \<Rightarrow> Inl e
                      | Inr stamp \<Rightarrow>
                         (let replies = thread_replies thread_ts thread_msgs
                          in case render_replies t ck replies of
                               Inl e \<Rightarrow> Inl e
                             | Inr lines \<Rightarrow>
                                Inr ([nl @ ''Thread started by: '' @ py_str user_name,
                                      ''Parent message: '' @ get_text parent_msg,
                                      ''Channel: '' @ py_str channel_name,
                                      ''Timestamp: '' @ stamp]
                                     @ (if replies = [] then [] else (nl @ ''Replies:'') # lines)
                                     @ [''---'']))))))"

fun render_threads :: "tables \<Rightarrow> ('k::linorder) clock \<Rightarrow> (pyval \<times> msg list) list \<Rightarrow> error + string list" where
  "render_threads t ck [] = Inr []"
| "render_threads t ck (item # items) =
    (case render_thread t ck item of
       Inl e \<Rightarrow> Inl e
     | Inr lines \<Rightarrow>
        (case render_threads t ck items of Inl e \<Rightarrow> Inl e | Inr more_lines \<Rightarrow> Inr (lines @ more_lines)))"

text \<open>
  \<open>build_claude_context_with_all_thread_replies\<close>; \<open>messages\<close> is what
  \<open>data_store.get_messages_by_date_range(start_ts or 0, end_ts or float('inf'), channel_id)\<close>
  returned. \<open>semantic_search\<close> returns strings, so the loop over a non-empty result raises
  at \<open>result.get('channel_name')\<close>.
\<close>

definition build_claude_context_with_all_thread_replies ::
  "llm \<Rightarrow> collection \<Rightarrow> tables \<Rightarrow> ('k::linorder) clock \<Rightarrow> msg list \<Rightarrow> string \<Rightarrow> nat \<Rightarrow> error + string" where
  "build_claude_context_with_all_thread_replies claude coll t ck messages query limit =
    (let thread_messages = group_threads messages in
     case semantic_search claude coll query limit PNone PNone PNone of
       Inl e \<Rightarrow> Inl e
     | Inr (result # _) \<Rightarrow>
        Inl (AttributeError (single_quoted ''str'' @ '' object has no attribute '' @ single_quoted ''get''))
     | Inr [] \<Rightarrow>
        (case render_threads t ck thread_messages of
           Inl e \<Rightarrow> Inl e
         | Inr lines \<Rightarrow> Inr (py_join nl ((nl @ ''=== Thread Replies ==='') # lines))))"

text \<open>
  \<open>build_claude_context_by_candidate\<close>. The class body defines the method twice; the second
  definition replaces the first, so it is the one every caller runs. Its loop calls
  \<open>candidate_extractor.extract_candidates(msg.get('text', ''))\<close> with one argument, while the
  method is declared as \<open>extract_candidates(self, messages, channel_name)\<close>: Python raises
  \<open>TypeError\<close> before the body of \<open>extract_candidates\<close> runs.
\<close>

definition extract_candidates_one_argument :: "string \<Rightarrow> error + candidate list" where
  "extract_candidates_one_argument text =
    Inl (TypeError (''CandidateExtractor.extract_candidates() missing 1 required positional argument: ''
            @ single_quoted ''channel_name''))"

text \<open>\<open>msg.get('datetime', msg.get('ts', ''))\<close>.\<close>

definition datetime_or_ts :: "msg \<Rightarrow> pyval" where
  "datetime_or_ts m = py_get_default (m_datetime m) (py_get_default (m_ts m) (PStr []))"

definition candidate_replies :: "msg list \<Rightarrow> msg \<Rightarrow> msg list" where
  "candidate_replies messages msg =
    (let thread_ts = thread_key msg
     in filter (\<lambda>m. py_get (m_thread_ts m) = thread_ts \<and> py_get (m_ts m) \<noteq> thread_ts) messages)"

definition candidate_block :: "tables \<Rightarrow> msg list \<Rightarrow> msg \<Rightarrow> candidate \<Rightarrow> string" where
  "candidate_block t messages msg candidate =
    (let channel_name = py_or (py_get (m_channel_name msg)) (get_channel_name t (py_get (m_channel_id msg)));
         user_name = get_user_name t (py_get (m_user msg));
         replies = candidate_replies messages msg;
         block =
           [''Candidate: '' @ c_name candidate @ '' ('' @ c_linkedin_url candidate @ '')'',
            ''Submission: '' @ get_text msg,
            ''Channel: '' @ py_str channel_name,
            ''Submitted by: '' @ py_str user_name,
            ''Timestamp: '' @ py_str (datetime_or_ts msg)]
           @ (if replies = [] then []
              else ''Feedback/Updates:''
                   # map (\<lambda>reply. ''- '' @ py_str (get_user_name t (py_get (m_user reply))) @ '': ''
                                    @ get_text reply @ '' ['' @ py_str (datetime_or_ts reply) @ '']'')
                       replies)
     in py_join nl block @ nl @ ''---'')"

text \<open>
  The loop of the second definition, over the result \<open>extract\<close> of the call in its first
  line; \<open>all_messages\<close> is the whole list, which the reply filter reads.
\<close>

fun candidate_blocks ::
  "(string \<Rightarrow> error + candidate list) \<Rightarrow> tables \<Rightarrow> msg list \<Rightarrow> msg list \<Rightarrow> error + string list" where
  "candidate_blocks extract t all_messages [] = Inr []"
| "candidate_blocks extract t all_messages (msg # rest) =
    (case extract (get_text msg) of
       Inl e \<Rightarrow> Inl e
     | Inr cands \<Rightarrow>
        (case candidate_blocks extract t all_messages rest of
           Inl e \<Rightarrow> Inl e
         | Inr blocks \<Rightarrow> Inr (map (candidate_block t all_messages msg) cands @ blocks)))"

definition build_claude_context_by_candidate :: "tables \<Rightarrow> msg list \<Rightarrow> error + string" where
  "build_claude_context_by_candidate t messages =
    (case candidate_blocks extract_candidates_one_argument t messages messages of
       Inl e \<Rightarrow> Inl e
     | Inr blocks \<Rightarrow> Inr (py_join (nl @ nl) blocks))"

section \<open>\<open>SlackDigestGenerator.enrich_message\<close>: the LinkedIn profiles of a message\<close>

text \<open>
  \<open>linkedin_pattern = (?:https?://)?(?:www\.)?linkedin\.com/in/([^>\s|]+)(?:\|([^>]+))?\<close>.
  The scheme and \<open>www.\<close> are optional; where one of them matches and the rest fails, the rest
  fails without it as well, since \<open>linkedin\<close> starts with neither \<open>h\<close> nor \<open>w\<close>. Nothing
  has to follow the profile, so the longest run of profile characters is taken, and the
  label group whenever a \<open>|\<close> and one more character other than \<open>>\<close> come next.
\<close>

definition profile_char :: "char \<Rightarrow> bool" where
  "profile_char c = (c \<noteq> CHR ''>'' \<and> \<not> is_space c \<and> c \<noteq> CHR ''|'')"

definition match_optional_scheme :: "string \<Rightarrow> string" where
  "match_optional_scheme s =
    (case match_literal ''http'' s of
       None \<Rightarrow> s
     | Some r1 \<Rightarrow>
        (case match_literal ''://'' (match_optional ''s'' r1) of None \<Rightarrow> s | Some r2 \<Rightarrow> r2))"

definition profile_match_at :: "string \<Rightarrow> (string \<times> string option \<times> string) option" where
  "profile_match_at s =
    (case match_literal ''linkedin.com/in/'' (match_optional ''www.'' (match_optional_scheme s)) of
       None \<Rightarrow> None
     | Some r \<Rightarrow>
        (let profile = takeWhile profile_char r; r1 = dropWhile profile_char r in
         if profile = [] then None
         else
           (case match_literal ''|'' r1 of
              None \<Rightarrow> Some (profile, None, r1)
            | Some r2 \<Rightarrow>
               (let label = takeWhile label_char r2 in
                if label = [] then Some (profile, None, r1)
                else Some (profile, Some label, dropWhile label_char r2)))))"

lemma match_optional_scheme_length: "length (match_optional_scheme s) \<le> length s"
proof (cases "match_literal ''http'' s")
  case None
  then show ?thesis by (simp add: match_optional_scheme_def)
next
  case (Some r1)
  show ?thesis
  proof (cases "match_literal ''://'' (match_optional ''s'' r1)")
    case None
    with Some show ?thesis by (simp add: match_optional_scheme_def)
  next
    case inner: (Some r2)
    have "length r2 \<le> length r1"
      using match_literal_length [OF inner] match_optional_length [of "''s''" r1] by simp
    moreover have "length r1 \<le> length s"
      using match_literal_length [OF Some] by simp
    ultimately show ?thesis
      using Some inner by (simp add: match_optional_scheme_def)
  qed
qed

lemma profile_match_at_length:
  assumes "profile_match_at s = Some (profile, label, r)"
  shows "length r < length s"
proof -
  from assms obtain r0 where
    r0: "match_literal ''linkedin.com/in/'' (match_optional ''www.'' (match_optional_scheme s)) = Some r0"
    by (auto simp: profile_match_at_def split: option.splits)
  have "length r0 < length (match_optional ''www.'' (match_optional_scheme s))"
    using match_literal_length [OF r0] by simp
  also have "\<dots> \<le> length (match_optional_scheme s)"
    by (rule match_optional_length)
  also have "\<dots> \<le> length s"
    by (rule match_optional_scheme_length)
  finally have r0_lt: "length r0 < length s" .
  have d: "length (dropWhile profile_char r0) \<le> length r0"
    by (rule length_dropWhile_le)
  from assms r0 have "r = dropWhile profile_char r0
      \<or> (\<exists>r2. match_literal ''|'' (dropWhile profile_char r0) = Some r2 \<and> r = dropWhile label_char r2)"
    by (auto simp: profile_match_at_def Let_def split: option.splits if_splits)
  then show ?thesis
  proof
    assume "r = dropWhile profile_char r0"
    with d r0_lt show ?thesis by simp
  next
    assume "\<exists>r2. match_literal ''|'' (dropWhile profile_char r0) = Some r2 \<and> r = dropWhile label_char r2"
    then obtain r2 where r2: "match_literal ''|'' (dropWhile profile_char r0) = Some r2"
      and r: "r = dropWhile label_char r2" by blast
    have "length r \<le> length r2"
      unfolding r by (rule length_dropWhile_le)
    moreover have "length r2 \<le> length (dropWhile profile_char r0)"
      using match_literal_length [OF r2] by simp
    ultimately show ?thesis
      using d r0_lt by simp
  qed
qed

text \<open>\<open>re.finditer(linkedin_pattern, text)\<close>: group 1 and group 2 of every match.\<close>

function profile_finditer :: "string \<Rightarrow> (string \<times> string option) list" where
  "profile_finditer [] = []"
| "profile_finditer (c # cs) =
    (case profile_match_at (c # cs) of
       None \<Rightarrow> profile_finditer cs
     | Some (profile, label, r) \<Rightarrow> (profile, label) # profile_finditer r)"
  by pat_completeness auto
termination
  by (relation "measure length") (auto dest: profile_match_at_length)

record profile =
  p_name :: string
  p_url :: string

definition linkedin_profiles :: "string \<Rightarrow> profile list" where
  "linkedin_profiles text =
    map (\<lambda>mt. \<lparr>p_name = (case snd mt of Some label \<Rightarrow> label | None \<Rightarrow> fst mt),
               p_url = ''https://linkedin.com/in/'' @ fst mt\<rparr>)
      (profile_finditer text)"

text \<open>
  Lines 298 to 317 of \<open>enrich_message\<close>: the values of the keys \<open>linkedin_profiles\<close> and
  \<open>has_linkedin_url\<close> of the enriched message, \<open>None\<close> for a key that is not set.
\<close>

definition enrich_message_linkedin :: "msg \<Rightarrow> profile list option \<times> bool option" where
  "enrich_message_linkedin message =
    (case m_text message of
       None \<Rightarrow> (None, None)
     | Some text \<Rightarrow>
        (let ps = linkedin_profiles text
         in if ps \<noteq> [] then (Some ps, Some True) else (None, Some False)))"

section \<open>\<open>SlackDigestGenerator.get_date_range\<close>\<close>

text \<open>
  A wall-clock reading: the day as its proleptic Gregorian ordinal (\<open>date.toordinal()\<close>)
  and the time of day. A \<open>datetime\<close> is naive, or aware with the UTC offset of its
  \<open>tzinfo\<close> in seconds.
\<close>

record wall =
  dt_ordinal :: int
  dt_hour :: nat
  dt_minute :: nat
  dt_second :: nat
  dt_microsecond :: nat

type_synonym aware = "wall \<times> int"

datatype datetime = Naive wall | Aware aware

text \<open>
  A \<open>pytz\<close> timezone: what \<open>localize\<close> answers for a naive wall-clock reading, the UTC
  offset it attaches, or the exception of its date arithmetic (an \<open>OverflowError\<close> for a
  reading at the ends of the range of \<open>datetime\<close>). \<open>localize\<close> accepts a naive datetime
  only, and tests that first.
\<close>

record timezone =
  utcoffset :: "wall \<Rightarrow> error + int"

fun localize :: "timezone \<Rightarrow> datetime \<Rightarrow> error + aware" where
  "localize tz (Naive w) = (case utcoffset tz w of Inl e \<Rightarrow> Inl e | Inr offset \<Rightarrow> Inr (w, offset))"
| "localize tz (Aware a) = Inl (ValueError ''Not naive datetime (tzinfo is already set)'')"

text \<open>\<open>weekday()\<close>: Monday is 0.\<close>

definition weekday :: "wall \<Rightarrow> int" where
  "weekday w = (dt_ordinal w + 6) mod 7"

text \<open>
  \<open>dt + timedelta(days=n)\<close> and \<open>dt.replace(hour=h, minute=m, second=s)\<close>. The last day of
  \<open>datetime\<close> is 31 December 9999, day 3652059; a sum beyond it raises \<open>OverflowError\<close>.
\<close>

definition max_ordinal :: int where
  "max_ordinal = 3652059"

definition add_days :: "int \<Rightarrow> wall \<Rightarrow> wall" where
  "add_days n w = w\<lparr>dt_ordinal := dt_ordinal w + n\<rparr>"

definition replace_time :: "nat \<Rightarrow> nat \<Rightarrow> nat \<Rightarrow> wall \<Rightarrow> wall" where
  "replace_time h m s w = w\<lparr>dt_hour := h, dt_minute := m, dt_second := s\<rparr>"

text \<open>
  \<open>timestamp()\<close> of an aware datetime, in microseconds since the epoch (Python returns the
  same instant as a float of seconds). Day 719163 is 1 January 1970.
\<close>

definition timestamp :: "aware \<Rightarrow> int" where
  "timestamp a =
    (((dt_ordinal (fst a) - 719163) * 86400 + int (dt_hour (fst a)) * 3600
       + int (dt_minute (fst a)) * 60 + int (dt_second (fst a)) - snd a) * 1000000
     + int (dt_microsecond (fst a)))"

text \<open>
  \<open>get_date_range\<close>. \<open>strptime\<close> is \<open>datetime.strptime(_, "%Y-%m-%d")\<close>, the midnight of the
  day or \<open>ValueError\<close>; \<open>now\<close> is \<open>datetime.now(self.timezone)\<close>, an aware datetime: the current
  time, from which the two weeks that the default branch goes back are within the range
  of \<open>datetime\<close>.
\<close>

definition get_date_range ::
  "timezone \<Rightarrow> (string \<Rightarrow> error + wall) \<Rightarrow> aware \<Rightarrow> pyval \<Rightarrow> pyval \<Rightarrow> error + int \<times> int" where
  "get_date_range tz strptime now start_date_str end_date_str =
    (case (if truthy start_date_str
           then (case strptime (py_str start_date_str) of
                   Inl e \<Rightarrow> Inl e
                 | Inr d \<Rightarrow> localize tz (Naive (replace_time 0 0 0 d)))
           else (let start_date = (add_days (- (weekday (fst now) + 7)) (fst now), snd now);
                     start_date = (replace_time 0 0 0 (fst start_date), snd start_date)
                 in localize tz (Aware start_date))) of
       Inl e \<Rightarrow> Inl e
     | Inr start_date \<Rightarrow>
        (case (if truthy end_date_str
               then (case strptime (py_str end_date_str) of
                       Inl e \<Rightarrow> Inl e
                     | Inr d \<Rightarrow> localize tz (Naive (replace_time 23 59 59 d)))
               else if dt_ordinal (fst start_date) + 6 > max_ordinal
                    then Inl (OverflowError ''date value out of range'')
                    else Inr (replace_time 23 59 59 (add_days 6 (fst start_date)), snd start_date)) of
           Inl e \<Rightarrow> Inl e
         | Inr end_date \<Rightarrow> Inr (timestamp start_date, timestamp end_date)))"

section \<open>Notions used in the statements and proofs\<close>

text \<open>
  The anchors of the bundles, in the order of the dict: what the thread map is built from.
\<close>

definition anchor_list :: "(string \<times> assoc_bundle) list \<Rightarrow> (string \<times> candidate) list" where
  "anchor_list assoc = map (\<lambda>p. (fst p, b_anchor (snd p))) assoc"

text \<open>
  The test of \<open>associate_threads\<close> read as a property of a message and a URL: the message
  is a reply, and the thread map sends its thread root to this URL.
\<close>

definition is_reply_to :: "(pyval \<times> string) list \<Rightarrow> string \<Rightarrow> msg \<Rightarrow> bool" where
  "is_reply_to tm url m =
    (truthy (py_get (m_thread_ts m)) \<and> map_of tm (py_get (m_thread_ts m)) = Some url
      \<and> py_get (m_ts m) \<noteq> py_get (m_thread_ts m))"

text \<open>
  The three checks of \<open>associate_direct_mentions\<close> for a message and an entry of
  \<open>candidate_map\<close>, and the messages one entry list adds to the direct list of a URL.
\<close>

definition direct_cond :: "msg \<Rightarrow> string \<times> candidate \<Rightarrow> bool" where
  "direct_cond m uc =
    ((sublist (fst uc) (get_text m) \<or> sublist (py_lower (c_name (snd uc))) (py_lower (get_text m)))
     \<and> py_get (m_id m) \<noteq> c_message_id (snd uc)
     \<and> (\<not> truthy (py_get (m_thread_ts m)) \<or> py_get (m_thread_ts m) \<noteq> c_message_id (snd uc)))"

definition direct_hits :: "msg \<Rightarrow> string \<Rightarrow> (string \<times> candidate) list \<Rightarrow> msg list" where
  "direct_hits m u cm = map (\<lambda>_. m) (filter (\<lambda>uc. fst uc = u \<and> direct_cond m uc) cm)"

text \<open>
  How \<open>associate_fuzzy\<close> relates the extractor before and after, whether it returns or
  raises: the same candidates and keys, and per URL the same bundle up to messages appended
  to \<open>fuzzy\<close>, each outside \<open>threads\<close> and \<open>direct\<close>.
\<close>

definition fuzzy_rel :: "extractor \<Rightarrow> extractor \<Rightarrow> bool" where
  "fuzzy_rel s s' =
    (candidate_map s' = candidate_map s \<and>
     (\<forall>u. case map_of (associations s) u of
        None \<Rightarrow> map_of (associations s') u = None
      | Some b \<Rightarrow> (\<exists>extra. map_of (associations s') u = Some (b\<lparr>b_fuzzy := b_fuzzy b @ extra\<rparr>)
            \<and> (\<forall>x\<in>set extra. x \<notin> set (b_threads b) \<and> x \<notin> set (b_direct b)))))"

text \<open>
  An extractor on which no association stage has run: the bundles mirror \<open>candidate_map\<close>,
  key by key, and their three lists are empty.
\<close>

definition fresh :: "extractor \<Rightarrow> bool" where
  "fresh s =
    (anchor_list (associations s) = candidate_map s \<and> distinct (map fst (candidate_map s)) \<and>
     (\<forall>p\<in>set (associations s). b_threads (snd p) = [] \<and> b_direct (snd p) = [] \<and> b_fuzzy (snd p) = []))"

text \<open>
  Every candidate in the map was built from a message of the given list.
\<close>

definition from_messages :: "msg list \<Rightarrow> string \<Rightarrow> extractor \<Rightarrow> bool" where
  "from_messages ms chan s =
    (\<forall>uc\<in>set (candidate_map s). \<exists>a\<in>set ms. \<exists>mt. snd uc = mk_candidate a chan mt)"






section \<open>Example inputs\<close>

definition ex_anchor :: msg where
  "ex_anchor = \<lparr>m_id = None, m_ts = Some (PStr ''100''), m_thread_ts = None,
     m_text = Some ''<https://linkedin.com/in/jdoe|Jane Doe>'', m_user = Some (PStr ''U1''),
     m_channel_name = None, m_channel_id = None, m_datetime = None\<rparr>"

definition ex_reply :: msg where
  "ex_reply = \<lparr>m_id = None, m_ts = Some (PStr ''200''), m_thread_ts = Some (PStr ''100''),
     m_text = Some ''jane doe looks strong'', m_user = Some (PStr ''U2''),
     m_channel_name = None, m_channel_id = None, m_datetime = None\<rparr>"

definition ex_mention :: msg where
  "ex_mention = \<lparr>m_id = None, m_ts = Some (PStr ''300''), m_thread_ts = None,
     m_text = Some ''any update on Jane Doe?'', m_user = Some (PStr ''U1''),
     m_channel_name = None, m_channel_id = None, m_datetime = None\<rparr>"

definition ex_other :: msg where
  "ex_other = \<lparr>m_id = None, m_ts = Some (PStr ''400''), m_thread_ts = None,
     m_text = Some ''she interviews on friday'', m_user = Some (PStr ''U2''),
     m_channel_name = None, m_channel_id = None, m_datetime = None\<rparr>"

definition ex_corpus :: "msg list" where
  "ex_corpus = [ex_anchor, ex_reply, ex_mention, ex_other]"

definition ex_url :: string where
  "ex_url = ''https://linkedin.com/in/jdoe''"

definition ex_candidate :: candidate where
  "ex_candidate = \<lparr>c_name = ''Jane Doe'', c_linkedin_url = ex_url, c_message_id = PStr ''100'',
     c_timestamp = PStr ''100'', c_channel = ''clients'', c_user = PStr ''U1'',
     c_text = ''<https://linkedin.com/in/jdoe|Jane Doe>''\<rparr>"

definition ex_judge :: judge where
  "ex_judge n text = (if text = ''she interviews on friday'' then Inr [''Jane Doe: onsite friday''] else Inr [])"

definition ex_extracted :: extractor where
  "ex_extracted = extract_candidates ex_corpus ''clients'' init_state"

definition ex_anchor_bob :: msg where
  "ex_anchor_bob = \<lparr>m_id = None, m_ts = Some (PStr ''150''), m_thread_ts = None,
     m_text = Some ''<https://linkedin.com/in/bsmith|Bob Smith>'', m_user = Some (PStr ''U3''),
     m_channel_name = None, m_channel_id = None, m_datetime = None\<rparr>"

definition ex_later :: msg where
  "ex_later = \<lparr>m_id = None, m_ts = Some (PStr ''450''), m_thread_ts = None,
     m_text = Some ''offer is out'', m_user = Some (PStr ''U1''),
     m_channel_name = None, m_channel_id = None, m_datetime = None\<rparr>"

definition ex_url_bob :: string where
  "ex_url_bob = ''https://linkedin.com/in/bsmith''"

definition ex_candidate_bob :: candidate where
  "ex_candidate_bob = \<lparr>c_name = ''Bob Smith'', c_linkedin_url = ex_url_bob,
     c_message_id = PStr ''150'', c_timestamp = PStr ''150'', c_channel = ''clients'',
     c_user = PStr ''U3'', c_text = ''<https://linkedin.com/in/bsmith|Bob Smith>''\<rparr>"

text \<open>
  Two candidates and two later messages, classified by the first two stages; and a judge
  whose documents name both candidates for the two later messages, and whose call number 3
  raises.
\<close>

definition ex_classified3 :: extractor where
  "ex_classified3 =
    associate_direct_mentions [ex_anchor, ex_anchor_bob, ex_other, ex_later]
      (associate_threads [ex_anchor, ex_anchor_bob, ex_other, ex_later]
        (extract_candidates [ex_anchor, ex_anchor_bob, ex_other, ex_later] ''clients'' init_state))"

definition ex_bundle_jane :: assoc_bundle where
  "ex_bundle_jane = \<lparr>b_anchor = ex_candidate, b_threads = [], b_direct = [ex_anchor], b_fuzzy = []\<rparr>"

definition ex_bundle_bob :: assoc_bundle where
  "ex_bundle_bob =
    \<lparr>b_anchor = ex_candidate_bob, b_threads = [], b_direct = [ex_anchor_bob], b_fuzzy = []\<rparr>"

definition ex_before_failure :: extractor where
  "ex_before_failure =
    \<lparr>candidates = [ex_candidate, ex_candidate_bob],
     candidate_map = [(ex_url, ex_candidate), (ex_url_bob, ex_candidate_bob)],
     associations = [(ex_url, ex_bundle_jane\<lparr>b_fuzzy := [ex_other]\<rparr>), (ex_url_bob, ex_bundle_bob)]\<rparr>"

definition ex_failing_judge :: judge where
  "ex_failing_judge n text =
    (if n = 3 then Inl (CollaboratorError ''vector store unavailable'')
     else if text = ''she interviews on friday'' \<or> text = ''offer is out''
     then Inr [''Jane Doe and Bob Smith: onsite, then offer'']
     else Inr [])"

text \<open>One message with the links of two candidates, and a reply in its thread.\<close>

definition ex_anchor_two :: msg where
  "ex_anchor_two = \<lparr>m_id = None, m_ts = Some (PStr ''100''), m_thread_ts = None,
     m_text = Some ''<https://linkedin.com/in/jdoe|Jane Doe> <https://linkedin.com/in/bsmith|Bob Smith>'',
     m_user = Some (PStr ''U1''), m_channel_name = None, m_channel_id = None, m_datetime = None\<rparr>"

definition ex_tables :: tables where
  "ex_tables = \<lparr>channel_names = (\<lambda>_. None), user_names = (\<lambda>_. None)\<rparr>"

fun digits_value :: "string \<Rightarrow> nat \<Rightarrow> nat option" where
  "digits_value [] acc = Some acc"
| "digits_value (c # cs) acc =
    (let n = (of_char c :: nat) in
     if 48 \<le> n \<and> n \<le> 57 then digits_value cs (10 * acc + (n - 48)) else None)"

text \<open>A clock for the examples: whole seconds written in decimal digits, shown as they are.\<close>

definition ex_clock :: "nat clock" where
  "ex_clock =
    \<lparr>float_of = (\<lambda>s. if s = [] then Inl (ValueError (''could not convert string to float: '' @ py_repr s))
                      else case digits_value s 0 of
                             None \<Rightarrow> Inl (ValueError (''could not convert string to float: '' @ py_repr s))
                           | Some n \<Rightarrow> Inr n),
     float_zero = 0,
     strftime = (\<lambda>k. Inr (''second '' @ replicate k CHR ''i''))\<rparr>"

definition ex_llm_down :: llm where
  "ex_llm_down system user = Inl (CollaboratorError ''overloaded'')"

definition ex_llm_echo :: llm where
  "ex_llm_echo system user = Inr user"

definition ex_collection_echo :: collection where
  "ex_collection_echo text n_results w = Inr [[text]]"

definition ex_collection_empty :: collection where
  "ex_collection_empty text n_results w = Inr [[]]"

definition ex_reply_small :: msg where
  "ex_reply_small = \<lparr>m_id = None, m_ts = Some (PStr ''5''), m_thread_ts = Some (PStr ''2''),
     m_text = Some ''client wants an onsite'', m_user = Some (PStr ''U2''),
     m_channel_name = Some (PStr ''clients''), m_channel_id = None, m_datetime = None\<rparr>"



definition ex_bare :: msg where
  "ex_bare = \<lparr>m_id = None, m_ts = Some (PStr ''500''), m_thread_ts = None,
     m_text = Some ''https://linkedin.com/in/jdoe2'', m_user = Some (PStr ''U1''),
     m_channel_name = None, m_channel_id = None, m_datetime = None\<rparr>"

definition ex_zone :: timezone where
  "ex_zone = \<lparr>utcoffset = (\<lambda>w. Inr (- 18000))\<rparr>"

text \<open>Wednesday 15 May 2024, 10:30:15.250000, at UTC-5.\<close>

definition ex_now :: aware where
  "ex_now = (\<lparr>dt_ordinal = 739021, dt_hour = 10, dt_minute = 30, dt_second = 15,
              dt_microsecond = 250000\<rparr>, - 18000)"

definition ex_strptime :: "string \<Rightarrow> error + wall" where
  "ex_strptime s =
    (if s = ''2024-05-06''
     then Inr \<lparr>dt_ordinal = 739012, dt_hour = 0, dt_minute = 0, dt_second = 0, dt_microsecond = 0\<rparr>
     else Inl (ValueError (''time data '' @ py_repr s @ '' does not match format ''
                           @ single_quoted ''%Y-%m-%d'')))"

section \<open>Properties of the model\<close>

subsection \<open>The thread stage\<close>

text \<open>
  The thread map depends on the anchors only, which no stage changes. One call of
  \<open>associate_threads\<close> appends to the thread list of a URL the messages that are replies to
  its anchor, in message order.
\<close>

lemma anchor_list_map_entry:
  "(\<And>b. b_anchor (f b) = b_anchor b) \<Longrightarrow> anchor_list (AList.map_entry url f assoc) = anchor_list assoc"
  by (induction assoc) (auto simp: anchor_list_def)

lemma anchor_list_update:
  "anchor_list (AList.update k b assoc) = AList.update k (b_anchor b) (anchor_list assoc)"
  by (induction assoc) (auto simp: anchor_list_def)

lemma map_fst_anchor_list: "map fst (anchor_list assoc) = map fst assoc"
  by (simp add: anchor_list_def)

lemma thread_map_anchor_list:
  "thread_map assoc = fold (\<lambda>p. AList.update (c_message_id (snd p)) (fst p)) (anchor_list assoc) []"
  by (simp add: thread_map_def anchor_list_def fold_map comp_def split_def)

lemma thread_map_fold_Some:
  "map_of (fold (\<lambda>p. AList.update (c_message_id (snd p)) (fst p)) al acc) k = Some url \<Longrightarrow>
     map_of acc k = Some url \<or> (\<exists>c. (url, c) \<in> set al \<and> c_message_id c = k)"
  by (induction al arbitrary: acc) (fastforce simp: update_conv' split: if_splits)+

lemma thread_map_Some:
  assumes "map_of (thread_map assoc) k = Some url"
  shows "\<exists>b. (url, b) \<in> set assoc \<and> c_message_id (b_anchor b) = k"
proof -
  from assms thread_map_fold_Some [of "anchor_list assoc" "[]" k url]
  obtain c where "(url, c) \<in> set (anchor_list assoc)" "c_message_id c = k"
    by (auto simp: thread_map_anchor_list)
  then show ?thesis by (auto simp: anchor_list_def)
qed

lemma thread_map_map_entry:
  "(\<And>b. b_anchor (f b) = b_anchor b) \<Longrightarrow> thread_map (AList.map_entry url f assoc) = thread_map assoc"
  by (simp add: thread_map_anchor_list anchor_list_map_entry)

lemma associations_append_threads:
  "map_of (associations (append_threads url m s)) u =
     (if u = url then map_option (\<lambda>b. b\<lparr>b_threads := b_threads b @ [m]\<rparr>) (map_of (associations s) u)
      else map_of (associations s) u)"
  by (auto simp: append_threads_def map_of_map_entry split: option.splits)

lemma thread_map_append_threads:
  "thread_map (associations (append_threads url m s)) = thread_map (associations s)"
  by (simp add: append_threads_def thread_map_map_entry)

lemma threads_step_lookup:
  "map_of (associations (threads_step tm m s)) u =
     map_option (\<lambda>b. b\<lparr>b_threads := b_threads b @ filter (is_reply_to tm u) [m]\<rparr>)
       (map_of (associations s) u)"
  by (auto simp: threads_step_def Let_def is_reply_to_def associations_append_threads
      option.map_ident split: option.splits)

lemma threads_step_thread_map:
  "thread_map (associations (threads_step tm m s)) = thread_map (associations s)"
  by (auto simp: threads_step_def Let_def thread_map_append_threads split: option.splits)

lemma fold_threads_step_lookup:
  "map_of (associations (fold (threads_step tm) ms s)) u =
     map_option (\<lambda>b. b\<lparr>b_threads := b_threads b @ filter (is_reply_to tm u) ms\<rparr>)
       (map_of (associations s) u)"
proof (induction ms arbitrary: s)
  case Nil
  show ?case by (simp add: option.map_ident)
next
  case (Cons m ms)
  show ?case
    by (simp add: Cons.IH threads_step_lookup option.map_comp comp_def)
qed

lemma fold_threads_step_thread_map:
  "thread_map (associations (fold (threads_step tm) ms s)) = thread_map (associations s)"
  by (induction ms arbitrary: s) (simp_all add: threads_step_thread_map)

lemma associate_threads_lookup:
  "map_of (associations (associate_threads ms s)) u =
     map_option (\<lambda>b. b\<lparr>b_threads := b_threads b @ filter (is_reply_to (thread_map (associations s)) u) ms\<rparr>)
       (map_of (associations s) u)"
  by (simp add: associate_threads_def fold_threads_step_lookup)

lemma associate_threads_thread_map:
  "thread_map (associations (associate_threads ms s)) = thread_map (associations s)"
  by (simp add: associate_threads_def fold_threads_step_thread_map)

text \<open>
  Two candidates of one anchor message: the thread map keeps the last URL, so a reply in
  the thread of that message goes to the second candidate and not to the first.
\<close>

lemma reply_goes_to_last_url_of_anchor:
  "map (\<lambda>p. (fst p, b_threads (snd p)))
     (associations (associate_threads [ex_anchor_two, ex_reply]
        (extract_candidates [ex_anchor_two, ex_reply] ''clients'' init_state)))
   = [(ex_url, []), (ex_url_bob, [ex_reply])]"
  by code_simp

subsection \<open>The direct-mention stage\<close>

text \<open>
  \<open>associate_direct_mentions\<close> appends to the direct list of a URL, message by message, each
  message that passes the three checks for the candidate stored under that URL.
\<close>

lemma associations_append_direct:
  "map_of (associations (append_direct url m s)) u =
     (if u = url then map_option (\<lambda>b. b\<lparr>b_direct := b_direct b @ [m]\<rparr>) (map_of (associations s) u)
      else map_of (associations s) u)"
  by (auto simp: append_direct_def map_of_map_entry split: option.splits)

lemma direct_step_lookup:
  "map_of (associations (direct_step m uc s)) u =
     map_option (\<lambda>b. b\<lparr>b_direct := b_direct b @ direct_hits m u [uc]\<rparr>) (map_of (associations s) u)"
  by (auto simp: direct_step_def Let_def direct_hits_def direct_cond_def associations_append_direct
      option.map_ident)

lemma direct_step_candidate_map: "candidate_map (direct_step m uc s) = candidate_map s"
  by (simp add: direct_step_def Let_def append_direct_def)

lemma fold_direct_step_candidate_map: "candidate_map (fold (direct_step m) cm s) = candidate_map s"
  by (induction cm arbitrary: s) (simp_all add: direct_step_candidate_map)

lemma fold_direct_step_lookup:
  "map_of (associations (fold (direct_step m) cm s)) u =
     map_option (\<lambda>b. b\<lparr>b_direct := b_direct b @ direct_hits m u cm\<rparr>) (map_of (associations s) u)"
proof (induction cm arbitrary: s)
  case Nil
  show ?case by (simp add: direct_hits_def option.map_ident)
next
  case (Cons uc cm)
  have "direct_hits m u (uc # cm) = direct_hits m u [uc] @ direct_hits m u cm"
    by (simp add: direct_hits_def)
  then show ?case
    by (simp add: Cons.IH direct_step_lookup option.map_comp comp_def)
qed

lemma associate_direct_mentions_candidate_map:
  "candidate_map (associate_direct_mentions ms s) = candidate_map s"
  unfolding associate_direct_mentions_def
  by (induction ms arbitrary: s) (simp_all add: fold_direct_step_candidate_map)

lemma associate_direct_mentions_lookup:
  "map_of (associations (associate_direct_mentions ms s)) u =
     map_option (\<lambda>b. b\<lparr>b_direct := b_direct b @ concat (map (\<lambda>m. direct_hits m u (candidate_map s)) ms)\<rparr>)
       (map_of (associations s) u)"
  unfolding associate_direct_mentions_def
proof (induction ms arbitrary: s)
  case Nil
  show ?case by (simp add: option.map_ident)
next
  case (Cons m ms)
  show ?case
    by (simp add: Cons.IH fold_direct_step_lookup fold_direct_step_candidate_map
        option.map_comp comp_def)
qed

lemma associate_threads_candidate_map: "candidate_map (associate_threads ms s) = candidate_map s"
proof -
  have "candidate_map (fold (threads_step tm) ms s) = candidate_map s" for tm
    by (induction ms arbitrary: s)
       (auto simp: threads_step_def Let_def append_threads_def split: option.splits)
  then show ?thesis by (simp add: associate_threads_def)
qed

subsection \<open>The fuzzy stage\<close>

text \<open>
  Whether it returns or raises, \<open>associate_fuzzy\<close> changes the \<open>fuzzy\<close> lists only, and a
  message it appends is in neither of the two other lists.
\<close>

lemma fuzzy_rel_refl: "fuzzy_rel s s"
  by (auto simp: fuzzy_rel_def split: option.splits intro: exI [of _ "[]"])

lemma fuzzy_rel_trans:
  assumes "fuzzy_rel s s'" "fuzzy_rel s' s''"
  shows "fuzzy_rel s s''"
  unfolding fuzzy_rel_def
proof (intro conjI allI)
  show "candidate_map s'' = candidate_map s"
    using assms by (simp add: fuzzy_rel_def)
next
  fix u
  show "case map_of (associations s) u of
        None \<Rightarrow> map_of (associations s'') u = None
      | Some b \<Rightarrow> (\<exists>extra. map_of (associations s'') u = Some (b\<lparr>b_fuzzy := b_fuzzy b @ extra\<rparr>)
            \<and> (\<forall>x\<in>set extra. x \<notin> set (b_threads b) \<and> x \<notin> set (b_direct b)))"
  proof (cases "map_of (associations s) u")
    case None
    with assms show ?thesis
      by (auto simp: fuzzy_rel_def split: option.splits dest!: spec [of _ u])
  next
    case (Some b)
    with assms(1) obtain e1 where
      e1: "map_of (associations s') u = Some (b\<lparr>b_fuzzy := b_fuzzy b @ e1\<rparr>)"
          "\<forall>x\<in>set e1. x \<notin> set (b_threads b) \<and> x \<notin> set (b_direct b)"
      by (auto simp: fuzzy_rel_def split: option.splits dest!: spec [of _ u])
    with assms(2) obtain e2 where
      e2: "map_of (associations s'') u = Some (b\<lparr>b_fuzzy := b_fuzzy b @ e1 @ e2\<rparr>)"
          "\<forall>x\<in>set e2. x \<notin> set (b_threads b) \<and> x \<notin> set (b_direct b)"
      by (auto simp: fuzzy_rel_def split: option.splits dest!: spec [of _ u])
    show ?thesis
      using Some e1 e2 by (auto intro!: exI [of _ "e1 @ e2"])
  qed
qed

lemma fuzzy_rel_append_fuzzy:
  assumes "map_of (associations s) url = Some b" "m \<notin> set (b_threads b)" "m \<notin> set (b_direct b)"
  shows "fuzzy_rel s (append_fuzzy url m s)"
  unfolding fuzzy_rel_def
proof (intro conjI allI)
  show "candidate_map (append_fuzzy url m s) = candidate_map s"
    by (simp add: append_fuzzy_def)
next
  fix u
  show "case map_of (associations s) u of
        None \<Rightarrow> map_of (associations (append_fuzzy url m s)) u = None
      | Some b \<Rightarrow> (\<exists>extra. map_of (associations (append_fuzzy url m s)) u = Some (b\<lparr>b_fuzzy := b_fuzzy b @ extra\<rparr>)
            \<and> (\<forall>x\<in>set extra. x \<notin> set (b_threads b) \<and> x \<notin> set (b_direct b)))"
  proof (cases "u = url")
    case True
    with assms show ?thesis
      by (auto simp: append_fuzzy_def map_of_map_entry intro!: exI [of _ "[m]"])
  next
    case False
    then show ?thesis
      by (auto simp: append_fuzzy_def map_of_map_entry split: option.splits intro!: exI [of _ "[]"])
  qed
qed

lemma fuzzy_candidates_rel:
  "fuzzy_rel (fst sn) (fst (fst (fuzzy_candidates search m cm sn)))"
proof (induction search m cm sn rule: fuzzy_candidates.induct)
  case (1 search m s n)
  show ?case by (simp add: fuzzy_rel_refl)
next
  case (2 search m url candidate rest s n)
  show ?case
  proof (cases "map_of (associations s) url")
    case None
    then show ?thesis by (simp add: fuzzy_rel_refl)
  next
    case (Some b)
    show ?thesis
    proof (cases "m \<in> set (b_threads b) \<or> m \<in> set (b_direct b)
           \<or> py_get (m_id m) = c_message_id candidate")
      case True
      with Some "2.IH"(1) show ?thesis by simp
    next
      case skip: False
      show ?thesis
      proof (cases "search n (get_text m)")
        case (Inl e)
        with Some skip show ?thesis by (simp add: fuzzy_rel_refl)
      next
        case (Inr docs)
        show ?thesis
        proof (cases "sublist (c_name candidate) (concat docs)")
          case True
          have "fuzzy_rel s (append_fuzzy url m s)"
            using Some skip by (intro fuzzy_rel_append_fuzzy) auto
          moreover have "fuzzy_rel (append_fuzzy url m s)
              (fst (fst (fuzzy_candidates search m rest (append_fuzzy url m s, Suc n))))"
            using "2.IH"(2) [OF Some skip Inr True] by simp
          ultimately show ?thesis
            using Some skip Inr True by (auto intro: fuzzy_rel_trans)
        next
          case False
          with Some skip Inr "2.IH"(3) show ?thesis by simp
        qed
      qed
    qed
  qed
qed

lemma fuzzy_messages_rel:
  "fuzzy_rel (fst sn) (fst (fst (fuzzy_messages search ms sn)))"
proof (induction ms arbitrary: sn)
  case Nil
  show ?case by (simp add: fuzzy_rel_refl)
next
  case (Cons m ms)
  obtain sn' r where step: "fuzzy_candidates search m (candidate_map (fst sn)) sn = (sn', r)"
    by (cases "fuzzy_candidates search m (candidate_map (fst sn)) sn")
  have rel: "fuzzy_rel (fst sn) (fst sn')"
    using fuzzy_candidates_rel [of sn search m "candidate_map (fst sn)"] step by simp
  show ?case
  proof (cases r)
    case None
    with step rel Cons.IH [of sn'] show ?thesis
      by (auto intro: fuzzy_rel_trans)
  next
    case (Some e)
    with step rel show ?thesis by simp
  qed
qed

lemma associate_fuzzy_rel:
  "fuzzy_rel s (fst (associate_fuzzy search ms s))"
proof -
  obtain s' n r where run: "fuzzy_messages search ms (s, 0) = ((s', n), r)"
    by (cases "fuzzy_messages search ms (s, 0)") auto
  then show ?thesis
    using fuzzy_messages_rel [of "(s, 0)" search ms] by (simp add: associate_fuzzy_def)
qed

subsection \<open>A fresh extractor after extraction\<close>

text \<open>
  After \<open>extract_candidates\<close> on a new extractor the two dicts have the same keys in the same
  order, the anchor of a bundle is the candidate stored under its URL, and all lists are
  empty.
\<close>

lemma set_update_subset: "set (AList.update k v al) \<subseteq> insert (k, v) (set al)"
  by (induction al) auto

lemma fresh_init: "fresh init_state"
  by (simp add: fresh_def init_state_def anchor_list_def)

lemma fresh_add_candidate:
  assumes "fresh s"
  shows "fresh (add_candidate c s)"
proof -
  have "anchor_list (associations (add_candidate c s)) = candidate_map (add_candidate c s)"
    using assms by (simp add: fresh_def add_candidate_def anchor_list_update)
  moreover have "distinct (map fst (candidate_map (add_candidate c s)))"
    using assms by (simp add: fresh_def add_candidate_def distinct_update)
  moreover have "\<forall>p\<in>set (associations (add_candidate c s)).
      b_threads (snd p) = [] \<and> b_direct (snd p) = [] \<and> b_fuzzy (snd p) = []"
    using assms set_update_subset [of "c_linkedin_url c" _ "associations s"]
    by (fastforce simp: fresh_def add_candidate_def)
  ultimately show ?thesis by (simp add: fresh_def)
qed

lemma fresh_extract_message: "fresh s \<Longrightarrow> fresh (extract_message chan m s)"
proof -
  have "fresh s \<Longrightarrow> fresh (fold (\<lambda>mt. add_candidate (mk_candidate m chan mt)) mts s)" for mts
    by (induction mts arbitrary: s) (simp_all add: fresh_add_candidate)
  then show "fresh s \<Longrightarrow> fresh (extract_message chan m s)"
    by (simp add: extract_message_def)
qed

lemma fresh_extract_candidates: "fresh s \<Longrightarrow> fresh (extract_candidates ms chan s)"
  unfolding extract_candidates_def
  by (induction ms arbitrary: s) (simp_all add: fresh_extract_message)

lemma key_determines_value:
  "distinct (map fst al) \<Longrightarrow> (k, v) \<in> set al \<Longrightarrow> (k, w) \<in> set al \<Longrightarrow> v = w"
  by (induction al) (auto simp: image_iff)

lemma reply_not_direct:
  assumes fr: "anchor_list (associations s) = candidate_map s" "distinct (map fst (candidate_map s))"
    and th: "is_reply_to (thread_map (associations s)) url m"
    and di: "x \<in> set (direct_hits m url (candidate_map s))"
  shows False
proof -
  from di obtain c where c: "(url, c) \<in> set (candidate_map s)" "direct_cond m (url, c)"
    by (auto simp: direct_hits_def)
  from th have tr: "truthy (py_get (m_thread_ts m))"
    and tm: "map_of (thread_map (associations s)) (py_get (m_thread_ts m)) = Some url"
    by (simp_all add: is_reply_to_def)
  from thread_map_Some [OF tm] obtain b where
    b: "(url, b) \<in> set (associations s)" "c_message_id (b_anchor b) = py_get (m_thread_ts m)"
    by blast
  from b(1) have "(url, b_anchor b) \<in> set (anchor_list (associations s))"
    by (force simp: anchor_list_def)
  with fr c(1) have "c = b_anchor b"
    by (auto dest: key_determines_value)
  with c(2) b(2) tr show False
    by (simp add: direct_cond_def)
qed

subsection \<open>A match is a piece of the text\<close>

text \<open>
  A match of \<open>LINKEDIN_REGEX\<close> reads \<open><\<close>, group 1, \<open>|\<close>, group 2, \<open>>\<close>; so group 1, and
  with it the stripped URL, occurs in the text of the message.
\<close>

lemma match_literal_append: "match_literal p s = Some r \<Longrightarrow> s = p @ r"
  by (induction p s rule: match_literal.induct) (auto split: if_splits)

lemma match_optional_suffix: "suffix (match_optional p s) s"
  by (auto simp: match_optional_def suffix_def dest: match_literal_append split: option.splits)

lemma match_profile_prefix_append:
  assumes "match_profile_prefix s = Some (pre, r)"
  shows "s = pre @ r"
proof -
  from assms obtain r1 r2 where
    r1: "match_literal ''http'' s = Some r1" and
    r2: "match_literal ''://'' (match_optional ''s'' r1) = Some r2" and
    r3: "match_literal ''linkedin.com/in/'' (match_optional ''www.'' r2) = Some r" and
    pre: "pre = take (length s - length r) s"
    by (auto simp: match_profile_prefix_def split: option.splits)
  obtain p1 where p1: "r1 = p1 @ match_optional ''s'' r1"
    using match_optional_suffix [of "''s''" r1] by (auto simp: suffix_def)
  obtain p2 where p2: "r2 = p2 @ match_optional ''www.'' r2"
    using match_optional_suffix [of "''www.''" r2] by (auto simp: suffix_def)
  have "s = ''http'' @ r1"
    by (rule match_literal_append [OF r1])
  also have "r1 = p1 @ match_optional ''s'' r1"
    by (rule p1)
  also have "match_optional ''s'' r1 = ''://'' @ r2"
    by (rule match_literal_append [OF r2])
  also have "r2 = p2 @ match_optional ''www.'' r2"
    by (rule p2)
  also have "match_optional ''www.'' r2 = ''linkedin.com/in/'' @ r"
    by (rule match_literal_append [OF r3])
  finally have "s = (''http'' @ p1 @ ''://'' @ p2 @ ''linkedin.com/in/'') @ r"
    by simp
  then obtain p where "s = p @ r" ..
  with pre show ?thesis by simp
qed

lemma linkedin_match_at_text:
  assumes "linkedin_match_at s = Some (g1, g2, r)"
  shows "s = ''<'' @ g1 @ ''|'' @ g2 @ ''>'' @ r"
proof -
  from assms obtain s0 pre r0 r2 where
    s0: "match_literal ''<'' s = Some s0" and
    pre: "match_profile_prefix s0 = Some (pre, r0)" and
    r2: "match_literal ''|'' (dropWhile url_char r0) = Some r2" and
    r: "match_literal ''>'' (dropWhile label_char r2) = Some r" and
    g1: "g1 = pre @ takeWhile url_char r0" and
    g2: "g2 = takeWhile label_char r2"
    by (auto simp: linkedin_match_at_def Let_def split: option.splits if_splits)
  have "s = ''<'' @ s0"
    by (rule match_literal_append [OF s0])
  also have "s0 = pre @ r0"
    by (rule match_profile_prefix_append [OF pre])
  also have "r0 = takeWhile url_char r0 @ dropWhile url_char r0"
    by simp
  also have "dropWhile url_char r0 = ''|'' @ r2"
    by (rule match_literal_append [OF r2])
  also have "r2 = takeWhile label_char r2 @ dropWhile label_char r2"
    by simp
  also have "dropWhile label_char r2 = ''>'' @ r"
    by (rule match_literal_append [OF r])
  finally show ?thesis
    by (simp add: g1 g2)
qed

lemma finditer_sublist: "(g1, g2) \<in> set (finditer t) \<Longrightarrow> sublist g1 t"
proof (induction t rule: finditer.induct)
  case 1
  then show ?case by simp
next
  case (2 c cs)
  show ?case
  proof (cases "linkedin_match_at (c # cs)")
    case None
    then have "finditer (c # cs) = finditer cs" by simp
    with "2.prems" have "(g1, g2) \<in> set (finditer cs)" by simp
    then have "sublist g1 cs" by (rule "2.IH"(1) [OF None])
    then show ?thesis by (simp add: sublist_Cons_right)
  next
    case (Some mt)
    obtain h1 h2 r where mt: "mt = (h1, h2, r)" by (cases mt)
    have m: "linkedin_match_at (c # cs) = Some (h1, h2, r)"
      using Some mt by simp
    have whole: "c # cs = ''<'' @ h1 @ ''|'' @ h2 @ ''>'' @ r"
      by (rule linkedin_match_at_text [OF m])
    have "finditer (c # cs) = (h1, h2) # finditer r"
      using m by simp
    with "2.prems" have "(g1, g2) = (h1, h2) \<or> (g1, g2) \<in> set (finditer r)"
      by simp
    then show ?thesis
    proof
      assume "(g1, g2) = (h1, h2)"
      then have "g1 = h1" by simp
      moreover have "sublist h1 (c # cs)"
        unfolding whole by (rule sublist_appendI)
      ultimately show ?thesis by simp
    next
      assume "(g1, g2) \<in> set (finditer r)"
      then have "sublist g1 r"
        by (rule "2.IH"(2) [OF m refl refl])
      moreover have "suffix r (c # cs)"
        unfolding whole by (intro suffix_appendI suffix_order.refl)
      ultimately show ?thesis
        by (rule sublist_order.order.trans [OF _ suffix_imp_sublist])
    qed
  qed
qed

lemma py_strip_sublist: "sublist (py_strip s) s"
proof -
  let ?d = "dropWhile is_space s"
  have "suffix (dropWhile is_space (rev ?d)) (rev ?d)"
    by (rule suffix_dropWhile)
  then have "prefix (py_strip s) ?d"
    by (simp add: py_strip_def suffix_to_prefix)
  then have "sublist (py_strip s) ?d"
    by (rule prefix_imp_sublist)
  moreover have "sublist ?d s"
    by (rule suffix_imp_sublist [OF suffix_dropWhile])
  ultimately show ?thesis
    by (rule sublist_order.order.trans)
qed

subsection \<open>The candidates of the map\<close>

text \<open>
  Every candidate in \<open>candidate_map\<close> was built from one of the messages, and every URL
  matched in a message is a key of the map.
\<close>

lemma set_update_cases: "p \<in> set (AList.update k v al) \<Longrightarrow> p = (k, v) \<or> p \<in> set al"
  using set_update_subset [of k v al] by auto

lemma from_messages_add:
  assumes "from_messages ms chan s" "a \<in> set ms"
  shows "from_messages ms chan (add_candidate (mk_candidate a chan mt) s)"
  unfolding from_messages_def
proof
  fix uc
  assume "uc \<in> set (candidate_map (add_candidate (mk_candidate a chan mt) s))"
  then have "uc = (c_linkedin_url (mk_candidate a chan mt), mk_candidate a chan mt)
      \<or> uc \<in> set (candidate_map s)"
    by (auto simp: add_candidate_def dest: set_update_cases)
  then show "\<exists>a\<in>set ms. \<exists>mt. snd uc = mk_candidate a chan mt"
  proof
    assume "uc = (c_linkedin_url (mk_candidate a chan mt), mk_candidate a chan mt)"
    then have "snd uc = mk_candidate a chan mt" by simp
    with assms(2) show ?thesis by blast
  next
    assume "uc \<in> set (candidate_map s)"
    with assms(1) show ?thesis by (simp add: from_messages_def)
  qed
qed

lemma from_messages_extract_message:
  assumes "from_messages ms chan s" "a \<in> set ms"
  shows "from_messages ms chan (extract_message chan a s)"
proof -
  have "from_messages ms chan s \<Longrightarrow>
      from_messages ms chan (fold (\<lambda>mt. add_candidate (mk_candidate a chan mt)) mts s)" for mts
    using assms(2) by (induction mts arbitrary: s) (simp_all add: from_messages_add)
  with assms(1) show ?thesis by (simp add: extract_message_def)
qed

lemma from_messages_fold:
  "from_messages ms chan s \<Longrightarrow> set ms' \<subseteq> set ms \<Longrightarrow>
     from_messages ms chan (fold (extract_message chan) ms' s)"
  by (induction ms' arbitrary: s) (simp_all add: from_messages_extract_message)

lemma from_messages_extract_candidates:
  "from_messages ms chan (extract_candidates ms chan init_state)"
  unfolding extract_candidates_def
  by (rule from_messages_fold) (simp_all add: from_messages_def init_state_def)

lemma keys_add_candidate:
  "fst ` set (candidate_map (add_candidate c s)) = insert (c_linkedin_url c) (fst ` set (candidate_map s))"
  by (simp add: add_candidate_def dom_update)

lemma keys_extract_message:
  "fst ` set (candidate_map (extract_message chan a s)) =
     fst ` set (candidate_map s) \<union> (\<lambda>mt. c_linkedin_url (mk_candidate a chan mt)) ` set (finditer (get_text a))"
proof -
  have "fst ` set (candidate_map (fold (\<lambda>mt. add_candidate (mk_candidate a chan mt)) mts s)) =
      fst ` set (candidate_map s) \<union> (\<lambda>mt. c_linkedin_url (mk_candidate a chan mt)) ` set mts" for mts
    by (induction mts arbitrary: s) (simp_all add: keys_add_candidate)
  then show ?thesis by (simp add: extract_message_def)
qed

lemma keys_extract_candidates:
  "fst ` set (candidate_map (extract_candidates ms chan s)) =
     fst ` set (candidate_map s) \<union>
       (\<Union>a\<in>set ms. (\<lambda>mt. c_linkedin_url (mk_candidate a chan mt)) ` set (finditer (get_text a)))"
  unfolding extract_candidates_def
proof (induction ms arbitrary: s)
  case Nil
  show ?case by simp
next
  case (Cons a ms)
  show ?case
    by (simp add: Cons.IH keys_extract_message Un_assoc)
qed

subsection \<open>The loops of the fuzzy stage, cut in two\<close>

text \<open>
  Each loop over a list that is cut in two runs over the first part and, if that raised
  nothing, goes on over the second part from where the first one ended.
\<close>

lemma fuzzy_candidates_append:
  "fuzzy_candidates search m (cpre @ cpost) sn =
     (case fuzzy_candidates search m cpre sn of
        (sn', None) \<Rightarrow> fuzzy_candidates search m cpost sn'
      | (sn', Some e) \<Rightarrow> (sn', Some e))"
proof (induction search m cpre sn rule: fuzzy_candidates.induct)
  case (1 search m s n)
  show ?case by simp
next
  case (2 search m url candidate rest s n)
  show ?case
  proof (cases "map_of (associations s) url")
    case None
    then show ?thesis by simp
  next
    case (Some b)
    show ?thesis
    proof (cases "m \<in> set (b_threads b) \<or> m \<in> set (b_direct b)
           \<or> py_get (m_id m) = c_message_id candidate")
      case True
      with Some "2.IH"(1) show ?thesis by simp
    next
      case skip: False
      show ?thesis
      proof (cases "search n (get_text m)")
        case (Inl e)
        with Some skip show ?thesis by simp
      next
        case (Inr docs)
        show ?thesis
        proof (cases "sublist (c_name candidate) (concat docs)")
          case True
          with Some skip Inr "2.IH"(2) show ?thesis by simp
        next
          case False
          with Some skip Inr "2.IH"(3) show ?thesis by simp
        qed
      qed
    qed
  qed
qed

lemma fuzzy_messages_append:
  "fuzzy_messages search (pre @ post) sn =
     (case fuzzy_messages search pre sn of
        (sn', None) \<Rightarrow> fuzzy_messages search post sn'
      | (sn', Some e) \<Rightarrow> (sn', Some e))"
proof (induction pre arbitrary: sn)
  case Nil
  show ?case by simp
next
  case (Cons m0 pre)
  obtain sn' r where step: "fuzzy_candidates search m0 (candidate_map (fst sn)) sn = (sn', r)"
    by (cases "fuzzy_candidates search m0 (candidate_map (fst sn)) sn")
  show ?case
  proof (cases r)
    case None
    with step Cons.IH [of sn'] show ?thesis by simp
  next
    case (Some e)
    with step show ?thesis by simp
  qed
qed

lemma ex_classified3_eq:
  "ex_classified3 =
     \<lparr>candidates = [ex_candidate, ex_candidate_bob],
      candidate_map = [(ex_url, ex_candidate), (ex_url_bob, ex_candidate_bob)],
      associations = [(ex_url, ex_bundle_jane), (ex_url_bob, ex_bundle_bob)]\<rparr>"
  by code_simp

subsection \<open>Sorting and rendering threads\<close>

lemma keyed_props:
  "keyed ck ms = Inr ks \<Longrightarrow> map snd ks = ms \<and> (\<forall>p\<in>set ks. ts_key ck (snd p) = Inr (fst p))"
  by (induction ms arbitrary: ks) (auto split: sum.splits)

lemma sort_by_ts_sorted:
  assumes "sort_by_ts ck ms = Inr sorted_msgs"
  shows "sorted_wrt (\<lambda>a b. \<exists>ka kb. ts_key ck a = Inr ka \<and> ts_key ck b = Inr kb \<and> ka \<le> kb) sorted_msgs"
proof -
  from assms obtain ks where ks: "keyed ck ms = Inr ks" and
    sm: "sorted_msgs = map snd (sort_key fst ks)"
    by (auto simp: sort_by_ts_def split: sum.splits)
  have keys: "\<forall>p\<in>set (sort_key fst ks). ts_key ck (snd p) = Inr (fst p)"
    using keyed_props [OF ks] by simp
  have "sorted (map fst (sort_key fst ks))"
    by (rule sorted_sort_key)
  then have "sorted_wrt (\<lambda>p q. fst p \<le> fst q) (sort_key fst ks)"
    by (simp add: sorted_map)
  then have "sorted_wrt (\<lambda>p q. \<exists>ka kb. ts_key ck (snd p) = Inr ka \<and> ts_key ck (snd q) = Inr kb \<and> ka \<le> kb)
      (sort_key fst ks)"
  proof (rule sorted_wrt_mono_rel [rotated])
    fix p q
    assume "p \<in> set (sort_key fst ks)" "q \<in> set (sort_key fst ks)" "fst p \<le> fst q"
    with keys have "ts_key ck (snd p) = Inr (fst p) \<and> ts_key ck (snd q) = Inr (fst q) \<and> fst p \<le> fst q"
      by simp
    then show "\<exists>ka kb. ts_key ck (snd p) = Inr ka \<and> ts_key ck (snd q) = Inr kb \<and> ka \<le> kb"
      by blast
  qed
  then show ?thesis
    by (simp add: sm sorted_wrt_map)
qed

lemma sort_by_ts_set: "sort_by_ts ck ms = Inr sorted_msgs \<Longrightarrow> set sorted_msgs = set ms"
proof -
  assume a: "sort_by_ts ck ms = Inr sorted_msgs"
  then obtain ks where ks: "keyed ck ms = Inr ks" and sm: "sorted_msgs = map snd (sort_key fst ks)"
    by (auto simp: sort_by_ts_def split: sum.splits)
  have "set sorted_msgs = snd ` set ks"
    by (simp add: sm)
  also have "\<dots> = set (map snd ks)"
    by simp
  also have "map snd ks = ms"
    using keyed_props [OF ks] by simp
  finally show ?thesis .
qed

text \<open>
  A thread none of whose fetched messages is its root adds no line: the loop goes on to
  the next thread.
\<close>

lemma render_thread_without_root:
  assumes "sort_by_ts ck thread_msgs = Inr sorted_msgs"
    and "\<forall>m\<in>set thread_msgs. py_get (m_ts m) \<noteq> thread_ts"
  shows "render_thread t ck (thread_ts, thread_msgs) = Inr []"
proof -
  have "\<forall>m\<in>set sorted_msgs. py_get (m_ts m) \<noteq> thread_ts"
    using assms sort_by_ts_set [OF assms(1)] by simp
  then have "find (\<lambda>m. py_get (m_ts m) = thread_ts) sorted_msgs = None"
    by (simp add: find_None_iff)
  with assms(1) show ?thesis
    by (simp add: render_thread_def)
qed

lemma render_threads_item:
  "render_threads t ck items = Inr lines \<Longrightarrow> item \<in> set items \<Longrightarrow> \<exists>l. render_thread t ck item = Inr l"
  by (induction items arbitrary: lines) (auto split: sum.splits)

lemma render_thread_sorted:
  "render_thread t ck item = Inr l \<Longrightarrow> \<exists>s. sort_by_ts ck (snd item) = Inr s"
  by (auto simp: render_thread_def Let_def split: sum.splits)

lemma build_with_threads_rendered:
  assumes "build_claude_context_with_all_thread_replies claude coll t ck messages query limit = Inr out"
  shows "\<exists>lines. render_threads t ck (group_threads messages) = Inr lines"
  using assms
  by (auto simp: build_claude_context_with_all_thread_replies_def Let_def split: sum.splits list.splits)






lemma by_candidate_raises:
  "build_claude_context_by_candidate t (msg # rest)
     = Inl (TypeError (''CandidateExtractor.extract_candidates() missing 1 required positional argument: ''
            @ single_quoted ''channel_name''))"
  by (simp add: build_claude_context_by_candidate_def extract_candidates_one_argument_def)

subsection \<open>What the two patterns match\<close>

lemma candidates_fold_add:
  "candidates (fold (\<lambda>mt. add_candidate (mk_candidate m chan mt)) mts s)
     = candidates s @ map (mk_candidate m chan) mts"
  by (induction mts arbitrary: s) (simp_all add: add_candidate_def)

lemma candidates_extract_candidates:
  "candidates (extract_candidates ms chan s)
     = candidates s @ concat (map (\<lambda>m. map (mk_candidate m chan) (finditer (get_text m))) ms)"
  unfolding extract_candidates_def
  by (induction ms arbitrary: s) (simp_all add: extract_message_def candidates_fold_add)

lemma match_profile_prefix_https:
  "match_profile_prefix (''https://linkedin.com/in/'' @ r) = Some (''https://linkedin.com/in/'', r)"
  by (simp add: match_profile_prefix_def match_optional_def)

lemma takeWhile_all_then: "\<forall>c\<in>set xs. P c \<Longrightarrow> \<not> P y \<Longrightarrow> takeWhile P (xs @ y # ys) = xs"
  by (induction xs) auto

lemma dropWhile_all_then: "\<forall>c\<in>set xs. P c \<Longrightarrow> \<not> P y \<Longrightarrow> dropWhile P (xs @ y # ys) = y # ys"
  by (induction xs) auto

lemma linkedin_match_at_bracketed:
  assumes "slug \<noteq> []" "\<forall>c\<in>set slug. url_char c" "label \<noteq> []" "\<forall>c\<in>set label. label_char c"
  shows "linkedin_match_at (''<https://linkedin.com/in/'' @ slug @ ''|'' @ label @ ''>'' @ r)
     = Some (''https://linkedin.com/in/'' @ slug, label, r)"
proof -
  have pre: "match_profile_prefix (''https://linkedin.com/in/'' @ slug @ CHR ''|'' # label @ CHR ''>'' # r)
      = Some (''https://linkedin.com/in/'', slug @ CHR ''|'' # label @ CHR ''>'' # r)"
    by (rule match_profile_prefix_https)
  have tw: "takeWhile url_char (slug @ CHR ''|'' # label @ CHR ''>'' # r) = slug"
    using assms(2) by (intro takeWhile_all_then) (simp_all add: url_char_def)
  have dw: "dropWhile url_char (slug @ CHR ''|'' # label @ CHR ''>'' # r) = CHR ''|'' # label @ CHR ''>'' # r"
    using assms(2) by (intro dropWhile_all_then) (simp_all add: url_char_def)
  have tl: "takeWhile label_char (label @ CHR ''>'' # r) = label"
    using assms(4) by (intro takeWhile_all_then) (simp_all add: label_char_def)
  have dl: "dropWhile label_char (label @ CHR ''>'' # r) = CHR ''>'' # r"
    using assms(4) by (intro dropWhile_all_then) (simp_all add: label_char_def)
  have "linkedin_match_at (CHR ''<'' # ''https://linkedin.com/in/'' @ slug @ CHR ''|'' # label @ CHR ''>'' # r)
     = Some (''https://linkedin.com/in/'' @ slug, label, r)"
    unfolding linkedin_match_at_def
    by (simp add: pre [simplified] tw dw tl dl assms(1) assms(3))
  then show ?thesis by simp
qed

lemma finditer_no_closing_bracket: "CHR ''>'' \<notin> set t \<Longrightarrow> finditer t = []"
proof (induction t rule: finditer.induct)
  case 1
  show ?case by simp
next
  case (2 c cs)
  have none: "linkedin_match_at (c # cs) = None"
  proof (cases "linkedin_match_at (c # cs)")
    case None
    then show ?thesis .
  next
    case (Some mt)
    obtain g1 g2 r where "mt = (g1, g2, r)" by (cases mt)
    with Some have "c # cs = ''<'' @ g1 @ ''|'' @ g2 @ ''>'' @ r"
      by (auto dest: linkedin_match_at_text)
    then have "CHR ''>'' \<in> set (c # cs)"
      by auto
    with "2.prems" show ?thesis by simp
  qed
  from "2.prems" have "CHR ''>'' \<notin> set cs" by simp
  then have "finditer cs = []"
    by (rule "2.IH"(1) [OF none])
  with none show ?case by simp
qed

lemma profile_match_at_bare:
  assumes "slug \<noteq> []" "\<forall>c\<in>set slug. profile_char c"
  shows "profile_match_at (''https://linkedin.com/in/'' @ slug) = Some (slug, None, [])"
proof -
  have sch: "match_optional_scheme (''https://linkedin.com/in/'' @ slug) = ''linkedin.com/in/'' @ slug"
    by (simp add: match_optional_scheme_def match_optional_def)
  have www: "match_optional ''www.'' (''linkedin.com/in/'' @ slug) = ''linkedin.com/in/'' @ slug"
    by (simp add: match_optional_def)
  have lit: "match_literal ''linkedin.com/in/'' (''linkedin.com/in/'' @ slug) = Some slug"
    by simp
  have tw: "takeWhile profile_char slug = slug"
    using assms(2) by (simp add: takeWhile_eq_all_conv)
  have dw: "dropWhile profile_char slug = []"
    using assms(2) by simp
  show ?thesis
    unfolding profile_match_at_def sch www lit
    by (simp add: tw dw assms(1))
qed

text \<open>
  The name \<open>enrich_message\<close> gives a bare URL is the whole run after \<open>/in/\<close>: a \<open>/\<close> after the
  slug is part of it, and a whitespace character ends it, the no-break space U+00A0
  included. \<open>strip\<close> takes U+00A0 and U+0085 off the ends of a label.
\<close>

lemma enrich_message_keeps_trailing_slash:
  "linkedin_profiles ''see https://linkedin.com/in/jdoe/ now''
     = [\<lparr>p_name = ''jdoe/'', p_url = ''https://linkedin.com/in/jdoe/''\<rparr>]"
  by code_simp

lemma enrich_message_stops_at_no_break_space:
  "linkedin_profiles (''https://linkedin.com/in/jdoe'' @ [CHR 0xA0] @ ''x'')
     = [\<lparr>p_name = ''jdoe'', p_url = ''https://linkedin.com/in/jdoe''\<rparr>]"
  by code_simp

lemma py_strip_latin1_spaces:
  "py_strip ([CHR 0xA0] @ ''Jane Doe'' @ [CHR 0x85, CHR 0x20]) = ''Jane Doe''"
  by code_simp

subsection \<open>The date range with an explicit start\<close>

text \<open>
  With a start date the window is computed: from Monday 6 May 2024 at UTC-5 it runs from
  00:00:00 of that day to 23:59:59 six days later.
\<close>

lemma explicit_date_range_example:
  "get_date_range ex_zone ex_strptime ex_now (PStr ''2024-05-06'') PNone
     = Inr (1714971600000000, 1715576399000000)"
  by (simp add: get_date_range_def ex_zone_def ex_strptime_def truthy_def py_str_def
      replace_time_def add_days_def timestamp_def max_ordinal_def)

section \<open>The claims\<close>

subsection \<open>Claim C1\<close>

text \<open>
  Claim C1. A fresh extractor extracts the candidates; then \<open>associate_threads\<close>,
  \<open>associate_direct_mentions\<close> and \<open>associate_fuzzy\<close> run in this order over one message
  list. In the bundle of every candidate URL, no message is in two of the lists
  \<open>threads\<close>, \<open>direct\<close> and \<open>fuzzy\<close>. This holds for every judge, also when the judge raises
  and \<open>associate_fuzzy\<close> stops early. A message is a dict, compared by value as \<open>in\<close> does.
\<close>

theorem exclusive_lists:
  assumes run: "s3 = fst (associate_fuzzy search messages
                  (associate_direct_mentions messages
                    (associate_threads messages (extract_candidates messages0 channel_name init_state))))"
    and b: "get_candidate_associations s3 url = Some b"
  shows "\<not> (m \<in> set (b_threads b) \<and> m \<in> set (b_direct b))
       \<and> \<not> (m \<in> set (b_threads b) \<and> m \<in> set (b_fuzzy b))
       \<and> \<not> (m \<in> set (b_direct b) \<and> m \<in> set (b_fuzzy b))"
proof -
  define s0 where "s0 = extract_candidates messages0 channel_name init_state"
  define s1 where "s1 = associate_threads messages s0"
  define s2 where "s2 = associate_direct_mentions messages s1"
  have fr: "fresh s0"
    unfolding s0_def by (intro fresh_extract_candidates fresh_init)
  have rel: "fuzzy_rel s2 s3"
    using associate_fuzzy_rel [of s2 search messages] run by (simp add: s0_def s1_def s2_def)
  from b obtain b2 extra where
    b2: "map_of (associations s2) url = Some b2" and
    b3: "b = b2\<lparr>b_fuzzy := b_fuzzy b2 @ extra\<rparr>" and
    ex: "\<forall>x\<in>set extra. x \<notin> set (b_threads b2) \<and> x \<notin> set (b_direct b2)"
    using rel
    by (auto simp: fuzzy_rel_def get_candidate_associations_def split: option.splits
             dest!: spec [of _ url])
  have cm1: "candidate_map s1 = candidate_map s0"
    by (simp add: s1_def associate_threads_candidate_map)
  from b2 obtain b1 where
    b1: "map_of (associations s1) url = Some b1" and
    b2_eq: "b2 = b1\<lparr>b_direct := b_direct b1 @ concat (map (\<lambda>m. direct_hits m url (candidate_map s0)) messages)\<rparr>"
    by (auto simp: s2_def associate_direct_mentions_lookup cm1)
  from b1 obtain b0 where
    b0: "map_of (associations s0) url = Some b0" and
    b1_eq: "b1 = b0\<lparr>b_threads := b_threads b0 @ filter (is_reply_to (thread_map (associations s0)) url) messages\<rparr>"
    by (auto simp: s1_def associate_threads_lookup)
  from b0 have "(url, b0) \<in> set (associations s0)"
    by (rule map_of_SomeD)
  with fr have empty: "b_threads b0 = []" "b_direct b0 = []" "b_fuzzy b0 = []"
    by (auto simp: fresh_def)
  have th: "b_threads b = filter (is_reply_to (thread_map (associations s0)) url) messages"
    by (simp add: b3 b2_eq b1_eq empty)
  have di: "b_direct b = concat (map (\<lambda>m. direct_hits m url (candidate_map s0)) messages)"
    by (simp add: b3 b2_eq b1_eq empty)
  have fu: "b_fuzzy b = extra"
    by (simp add: b3 b2_eq b1_eq empty)
  have same: "b_threads b2 = b_threads b" "b_direct b2 = b_direct b"
    by (simp_all add: b3)
  have "\<not> (m \<in> set (b_threads b) \<and> m \<in> set (b_direct b))"
  proof
    assume both: "m \<in> set (b_threads b) \<and> m \<in> set (b_direct b)"
    then have r: "is_reply_to (thread_map (associations s0)) url m"
      by (simp add: th)
    from both obtain m' where "m \<in> set (direct_hits m' url (candidate_map s0))"
      by (auto simp: di)
    then have "m \<in> set (direct_hits m url (candidate_map s0))"
      by (auto simp: direct_hits_def)
    with fr r show False
      by (auto simp: fresh_def dest: reply_not_direct)
  qed
  moreover have "\<not> (m \<in> set (b_threads b) \<and> m \<in> set (b_fuzzy b))"
    using ex fu same by auto
  moreover have "\<not> (m \<in> set (b_direct b) \<and> m \<in> set (b_fuzzy b))"
    using ex fu same by auto
  ultimately show ?thesis by simp
qed

text \<open>
  Claim C1, at the example corpus: the reply is in \<open>threads\<close> only, although its text names
  the candidate; the anchor and the mention are in \<open>direct\<close>, the last message in \<open>fuzzy\<close>.
\<close>

theorem exclusive_lists_witness:
  "get_candidate_associations
     (fst (associate_fuzzy ex_judge ex_corpus
        (associate_direct_mentions ex_corpus
          (associate_threads ex_corpus (extract_candidates ex_corpus ''clients'' init_state))))) ex_url
     = Some \<lparr>b_anchor = ex_candidate, b_threads = [ex_reply], b_direct = [ex_anchor, ex_mention],
         b_fuzzy = [ex_other]\<rparr>
   \<and> \<not> (ex_reply \<in> set [ex_reply] \<and> ex_reply \<in> set [ex_anchor, ex_mention])
   \<and> \<not> (ex_reply \<in> set [ex_reply] \<and> ex_reply \<in> set [ex_other])
   \<and> \<not> (ex_reply \<in> set [ex_anchor, ex_mention] \<and> ex_reply \<in> set [ex_other])"
proof -
  have h: "get_candidate_associations
     (fst (associate_fuzzy ex_judge ex_corpus
        (associate_direct_mentions ex_corpus
          (associate_threads ex_corpus (extract_candidates ex_corpus ''clients'' init_state))))) ex_url
     = Some \<lparr>b_anchor = ex_candidate, b_threads = [ex_reply], b_direct = [ex_anchor, ex_mention],
         b_fuzzy = [ex_other]\<rparr>"
    by code_simp
  show ?thesis
    using h exclusive_lists [OF refl h, of ex_reply] by simp
qed

subsection \<open>Claim C2\<close>

text \<open>
  Claim C2, as amended. \<open>associate_threads\<close> appends to the list it finds and never clears
  it. The thread map sends the \<open>message_id\<close> of an anchor to its URL, and to the last such
  URL in the order of the dict when several URLs have that anchor message. For a candidate
  URL with bundle \<open>b\<close>, one call leaves \<open>b_threads b\<close> followed by the messages of the list, in
  the order of the list, that are replies (a truthy \<open>thread_ts\<close> other than their \<open>ts\<close>) and
  whose \<open>thread_ts\<close> the thread map sends to this URL; a second call with the same messages
  appends the same messages once more. The bundle of the URL after the second call is the
  one after the first call exactly when no message of the list is such a reply.
\<close>

theorem associate_threads_twice_appends_again:
  assumes "get_candidate_associations s url = Some b"
  shows "get_candidate_associations (associate_threads messages s) url =
           Some (b\<lparr>b_threads := b_threads b @ filter (is_reply_to (thread_map (associations s)) url) messages\<rparr>)
       \<and> get_candidate_associations (associate_threads messages (associate_threads messages s)) url =
           Some (b\<lparr>b_threads := b_threads b @ filter (is_reply_to (thread_map (associations s)) url) messages
                                 @ filter (is_reply_to (thread_map (associations s)) url) messages\<rparr>)
       \<and> ((get_candidate_associations (associate_threads messages (associate_threads messages s)) url
             = get_candidate_associations (associate_threads messages s) url)
            = (filter (is_reply_to (thread_map (associations s)) url) messages = []))"
proof -
  let ?R = "filter (is_reply_to (thread_map (associations s)) url) messages"
  have once: "get_candidate_associations (associate_threads messages s) url =
      Some (b\<lparr>b_threads := b_threads b @ ?R\<rparr>)"
    using assms
    by (simp add: get_candidate_associations_def associate_threads_lookup)
  have twice: "get_candidate_associations (associate_threads messages (associate_threads messages s)) url =
      Some (b\<lparr>b_threads := b_threads b @ ?R @ ?R\<rparr>)"
    using assms
    by (simp add: get_candidate_associations_def associate_threads_lookup associate_threads_thread_map)
  have "(b\<lparr>b_threads := b_threads b @ ?R @ ?R\<rparr> = b\<lparr>b_threads := b_threads b @ ?R\<rparr>) = (?R = [])"
  proof
    assume "b\<lparr>b_threads := b_threads b @ ?R @ ?R\<rparr> = b\<lparr>b_threads := b_threads b @ ?R\<rparr>"
    then have "b_threads (b\<lparr>b_threads := b_threads b @ ?R @ ?R\<rparr>)
        = b_threads (b\<lparr>b_threads := b_threads b @ ?R\<rparr>)"
      by (rule arg_cong)
    then show "?R = []" by simp
  next
    assume "?R = []"
    then show "b\<lparr>b_threads := b_threads b @ ?R @ ?R\<rparr> = b\<lparr>b_threads := b_threads b @ ?R\<rparr>"
      by simp
  qed
  with once twice show ?thesis by simp
qed

text \<open>
  Claim C2, as amended, at the example corpus: the reply is appended by each call, and the
  bundle after the second call is not the one after the first.
\<close>

theorem associate_threads_twice_appends_again_witness:
  "get_candidate_associations ex_extracted ex_url
     = Some \<lparr>b_anchor = ex_candidate, b_threads = [], b_direct = [], b_fuzzy = []\<rparr>
   \<and> filter (is_reply_to (thread_map (associations ex_extracted)) ex_url) ex_corpus = [ex_reply]
   \<and> get_candidate_associations (associate_threads ex_corpus ex_extracted) ex_url
     = Some \<lparr>b_anchor = ex_candidate, b_threads = [ex_reply], b_direct = [], b_fuzzy = []\<rparr>
   \<and> get_candidate_associations (associate_threads ex_corpus (associate_threads ex_corpus ex_extracted)) ex_url
     = Some \<lparr>b_anchor = ex_candidate, b_threads = [ex_reply, ex_reply], b_direct = [], b_fuzzy = []\<rparr>
   \<and> get_candidate_associations (associate_threads ex_corpus (associate_threads ex_corpus ex_extracted)) ex_url
     \<noteq> get_candidate_associations (associate_threads ex_corpus ex_extracted) ex_url"
proof -
  have h: "get_candidate_associations ex_extracted ex_url
     = Some \<lparr>b_anchor = ex_candidate, b_threads = [], b_direct = [], b_fuzzy = []\<rparr>"
    by code_simp
  have f: "filter (is_reply_to (thread_map (associations ex_extracted)) ex_url) ex_corpus = [ex_reply]"
    by code_simp
  show ?thesis
    using h f associate_threads_twice_appends_again [OF h, of ex_corpus] by simp
qed

text \<open>
  Claim C2 as stated fails. With the example corpus the thread list is \<open>[ex_reply]\<close> after the
  first call and \<open>[ex_reply, ex_reply]\<close> after the second.
\<close>

theorem associate_threads_second_call_differs:
  "get_candidate_associations (associate_threads ex_corpus ex_extracted) ex_url
     = Some \<lparr>b_anchor = ex_candidate, b_threads = [ex_reply], b_direct = [], b_fuzzy = []\<rparr>
   \<and> get_candidate_associations (associate_threads ex_corpus (associate_threads ex_corpus ex_extracted)) ex_url
     = Some \<lparr>b_anchor = ex_candidate, b_threads = [ex_reply, ex_reply], b_direct = [], b_fuzzy = []\<rparr>
   \<and> associate_threads ex_corpus (associate_threads ex_corpus ex_extracted)
     \<noteq> associate_threads ex_corpus ex_extracted"
  by code_simp

subsection \<open>Claim C3\<close>

text \<open>
  Claim C3, as amended. \<open>associate_fuzzy\<close> has no handler around the judge, which it calls
  once for every pair of a message and a candidate that it examines. Let the pairs before
  the pair of \<open>m\<close> and \<open>url\<close> be processed without an exception (the messages \<open>pre\<close> before \<open>m\<close>
  and, for \<open>m\<close>, the candidates \<open>cpre\<close> before \<open>url\<close>), leaving the extractor \<open>s2\<close> after \<open>n2\<close>
  calls of the judge; let the pair be examined (\<open>m\<close> is neither in the \<open>threads\<close> nor in the
  \<open>direct\<close> list of \<open>url\<close>, nor its anchor by id); and let the next call of the judge raise \<open>e\<close>.
  Then \<open>associate_fuzzy\<close> raises \<open>e\<close> and leaves the extractor \<open>s2\<close>, whatever candidates and
  messages come after the pair: the matches appended before the failure stay, every list
  of \<open>s2\<close> being the list at the start followed by the messages appended; \<open>m\<close> is not
  appended for \<open>url\<close>; and no later pair is examined.
\<close>

theorem judge_error_leaves_associate_fuzzy:
  assumes before: "fuzzy_messages search pre (s, 0) = ((s1, n1), None)"
    and cm: "candidate_map s = cpre @ (url, c) # cpost"
    and inner: "fuzzy_candidates search m cpre (s1, n1) = ((s2, n2), None)"
    and b: "get_candidate_associations s2 url = Some b"
    and examined: "m \<notin> set (b_threads b)" "m \<notin> set (b_direct b)"
      "py_get (m_id m) \<noteq> c_message_id c"
    and raises: "search n2 (get_text m) = Inl e"
  shows "associate_fuzzy search (pre @ m # post) s = (s2, Some e)
    \<and> (\<forall>u b0. get_candidate_associations s u = Some b0 \<longrightarrow>
          (\<exists>extra. get_candidate_associations s2 u = Some (b0\<lparr>b_fuzzy := b_fuzzy b0 @ extra\<rparr>)))"
proof -
  have rel1: "fuzzy_rel s s1"
    using fuzzy_messages_rel [of "(s, 0)" search pre] before by simp
  have rel2: "fuzzy_rel s1 s2"
    using fuzzy_candidates_rel [of "(s1, n1)" search m cpre] inner by simp
  have rel: "fuzzy_rel s s2"
    using rel1 rel2 by (rule fuzzy_rel_trans)
  have cm1: "candidate_map s1 = cpre @ (url, c) # cpost"
    using rel1 cm by (simp add: fuzzy_rel_def)
  have bm: "map_of (associations s2) url = Some b"
    using b by (simp add: get_candidate_associations_def)
  have "fuzzy_candidates search m (cpre @ (url, c) # cpost) (s1, n1) = ((s2, n2), Some e)"
    by (simp add: fuzzy_candidates_append inner bm examined raises)
  then have "fuzzy_candidates search m (candidate_map s1) (s1, n1) = ((s2, n2), Some e)"
    by (simp add: cm1)
  then have "fuzzy_messages search (m # post) (s1, n1) = ((s2, n2), Some e)"
    by simp
  then have "fuzzy_messages search (pre @ m # post) (s, 0) = ((s2, n2), Some e)"
    using fuzzy_messages_append [of search pre "m # post" "(s, 0)"] by (simp add: before)
  then have "associate_fuzzy search (pre @ m # post) s = (s2, Some e)"
    by (simp add: associate_fuzzy_def)
  moreover have "\<forall>u b0. get_candidate_associations s u = Some b0 \<longrightarrow>
          (\<exists>extra. get_candidate_associations s2 u = Some (b0\<lparr>b_fuzzy := b_fuzzy b0 @ extra\<rparr>))"
  proof (intro allI impI)
    fix u b0
    assume "get_candidate_associations s u = Some b0"
    then have "map_of (associations s) u = Some b0"
      by (simp add: get_candidate_associations_def)
    with rel obtain extra where
      "map_of (associations s2) u = Some (b0\<lparr>b_fuzzy := b_fuzzy b0 @ extra\<rparr>)"
      by (auto simp: fuzzy_rel_def split: option.splits dest!: spec [of _ u])
    then show "\<exists>extra. get_candidate_associations s2 u = Some (b0\<lparr>b_fuzzy := b_fuzzy b0 @ extra\<rparr>)"
      by (auto simp: get_candidate_associations_def)
  qed
  ultimately show ?thesis by simp
qed

text \<open>
  Claim C3, as amended, at an example with two candidates. The judge is called for the two
  anchors (calls 0 and 1, no match), then for \<open>ex_other\<close> and the first candidate (call 2, a
  match, appended), then for \<open>ex_other\<close> and the second candidate (call 3, which raises). The
  match of call 2 stays, \<open>ex_other\<close> is not appended for the second candidate, and \<open>ex_later\<close>
  is not examined.
\<close>

theorem judge_error_leaves_associate_fuzzy_witness:
  "fuzzy_messages ex_failing_judge [ex_anchor, ex_anchor_bob] (ex_classified3, 0)
      = ((ex_classified3, 2), None)
   \<and> candidate_map ex_classified3 = [(ex_url, ex_candidate)] @ (ex_url_bob, ex_candidate_bob) # []
   \<and> fuzzy_candidates ex_failing_judge ex_other [(ex_url, ex_candidate)] (ex_classified3, 2)
      = ((ex_before_failure, 3), None)
   \<and> get_candidate_associations ex_before_failure ex_url_bob = Some ex_bundle_bob
   \<and> ex_other \<notin> set (b_threads ex_bundle_bob)
   \<and> ex_other \<notin> set (b_direct ex_bundle_bob)
   \<and> py_get (m_id ex_other) \<noteq> c_message_id ex_candidate_bob
   \<and> ex_failing_judge 3 (get_text ex_other) = Inl (CollaboratorError ''vector store unavailable'')
   \<and> associate_fuzzy ex_failing_judge ([ex_anchor, ex_anchor_bob] @ ex_other # [ex_later]) ex_classified3
      = (ex_before_failure, Some (CollaboratorError ''vector store unavailable''))
   \<and> get_candidate_associations ex_classified3 ex_url = Some ex_bundle_jane
   \<and> get_candidate_associations ex_before_failure ex_url
      = Some (ex_bundle_jane\<lparr>b_fuzzy := b_fuzzy ex_bundle_jane @ [ex_other]\<rparr>)"
proof -
  have h1: "fuzzy_messages ex_failing_judge [ex_anchor, ex_anchor_bob] (ex_classified3, 0)
      = ((ex_classified3, 2), None)"
    unfolding ex_classified3_eq by code_simp
  have h2: "candidate_map ex_classified3 = [(ex_url, ex_candidate)] @ (ex_url_bob, ex_candidate_bob) # []"
    by (simp add: ex_classified3_eq)
  have h3: "fuzzy_candidates ex_failing_judge ex_other [(ex_url, ex_candidate)] (ex_classified3, 2)
      = ((ex_before_failure, 3), None)"
    unfolding ex_classified3_eq by code_simp
  have h4: "get_candidate_associations ex_before_failure ex_url_bob = Some ex_bundle_bob"
    by code_simp
  have h5: "ex_other \<notin> set (b_threads ex_bundle_bob)"
    by (simp add: ex_bundle_bob_def)
  have h6: "ex_other \<notin> set (b_direct ex_bundle_bob)"
    by code_simp
  have h7: "py_get (m_id ex_other) \<noteq> c_message_id ex_candidate_bob"
    by code_simp
  have h8: "ex_failing_judge 3 (get_text ex_other) = Inl (CollaboratorError ''vector store unavailable'')"
    by (simp add: ex_failing_judge_def)
  have h9: "get_candidate_associations ex_classified3 ex_url = Some ex_bundle_jane"
    by (simp add: ex_classified3_eq get_candidate_associations_def)
  have h10: "get_candidate_associations ex_before_failure ex_url
      = Some (ex_bundle_jane\<lparr>b_fuzzy := b_fuzzy ex_bundle_jane @ [ex_other]\<rparr>)"
    by code_simp
  have main: "associate_fuzzy ex_failing_judge ([ex_anchor, ex_anchor_bob] @ ex_other # [ex_later])
        ex_classified3
      = (ex_before_failure, Some (CollaboratorError ''vector store unavailable''))"
    using judge_error_leaves_associate_fuzzy [where search = ex_failing_judge and m = ex_other
        and post = "[ex_later]", OF h1 h2 h3 h4 h5 h6 h7 h8]
    by (rule conjunct1)
  show ?thesis
    using h1 h2 h3 h4 h5 h6 h7 h8 h9 h10 main by simp
qed

text \<open>
  Claim C3 as stated fails. The call number 3 of the judge raises: \<open>associate_fuzzy\<close> ends
  with that exception, and \<open>ex_later\<close>, which comes after the failing pair, is in no \<open>fuzzy\<close> list,
  although the judge, asked about \<open>ex_later\<close> alone, accepts it for both candidates.
\<close>

theorem judge_error_aborts_batch:
  "associate_fuzzy ex_failing_judge [ex_anchor, ex_anchor_bob, ex_other, ex_later] ex_classified3
     = (ex_before_failure, Some (CollaboratorError ''vector store unavailable''))
   \<and> map (\<lambda>p. b_fuzzy (snd p)) (associations ex_before_failure) = [[ex_other], []]
   \<and> map (\<lambda>p. b_fuzzy (snd p))
        (associations (fst (associate_fuzzy ex_failing_judge [ex_later] ex_classified3)))
     = [[ex_later], [ex_later]]"
  by code_simp

subsection \<open>Claim C4\<close>

text \<open>
  Claim C4, as amended. When the optimizer call raises, \<open>optimize_query_with_claude\<close> catches
  the exception and returns the text \<open>[ERROR] Claude API error: \<close> followed by the message of
  the exception. \<open>semantic_search\<close> goes on and queries the collection; the text it sends is
  that returned text.
\<close>

theorem optimizer_error_searches_error_text:
  assumes "claude optimizer_system_prompt
             (''Optimize the following query for better search results: '' @ query) = Inl e"
  shows "semantic_search claude coll query n_results channel start_date end_date
     = query_collection coll (''[ERROR] Claude API error: '' @ err_str e) n_results channel start_date end_date"
  using assms by (simp add: semantic_search_def optimize_query_with_claude_def)

text \<open>
  Claim C4, as amended, at an example.
\<close>

theorem optimizer_error_searches_error_text_witness:
  "ex_llm_down optimizer_system_prompt
      (''Optimize the following query for better search results: '' @ ''status of Jane Doe'')
     = Inl (CollaboratorError ''overloaded'')
   \<and> semantic_search ex_llm_down ex_collection_echo ''status of Jane Doe'' 10 PNone PNone PNone
     = query_collection ex_collection_echo
         (''[ERROR] Claude API error: '' @ err_str (CollaboratorError ''overloaded'')) 10 PNone PNone PNone"
proof -
  have h: "ex_llm_down optimizer_system_prompt
      (''Optimize the following query for better search results: '' @ ''status of Jane Doe'')
     = Inl (CollaboratorError ''overloaded'')"
    by (simp add: ex_llm_down_def)
  show ?thesis
    using h optimizer_error_searches_error_text
        [where claude = ex_llm_down and query = "''status of Jane Doe''", OF h]
    by blast
qed

text \<open>
  Claim C4 as stated fails. A collection that answers with the text it was asked shows which
  text is searched: the error report, where a search of the caller's query gives the query.
\<close>

theorem optimizer_error_changes_searched_text:
  "semantic_search ex_llm_down ex_collection_echo ''status of Jane Doe'' 10 PNone PNone PNone
     = Inr [''[ERROR] Claude API error: overloaded'']
   \<and> query_collection ex_collection_echo ''status of Jane Doe'' 10 PNone PNone PNone
     = Inr [''status of Jane Doe'']
   \<and> semantic_search ex_llm_down ex_collection_echo ''status of Jane Doe'' 10 PNone PNone PNone
     \<noteq> query_collection ex_collection_echo ''status of Jane Doe'' 10 PNone PNone PNone"
  by code_simp

subsection \<open>Claim C5\<close>

text \<open>
  Claim C5, as amended, for texts of code points below U+0100. \<open>extract_candidates\<close>
  returns one candidate per match of \<open>LINKEDIN_REGEX\<close>, messages in input order and matches
  from left to right, with the two groups stripped of whitespace as name and URL. The
  pattern is the bracketed form \<open><url|label>\<close>: the text \<open><https://linkedin.com/in/slug|label>\<close>,
  with a non-empty slug free of \<open>>\<close> and \<open>|\<close> and a non-empty label free of \<open>>\<close>, has one match,
  whose groups are the URL and the label. A bare profile URL \<open>https://linkedin.com/in/\<close>
  followed by a non-empty run of characters other than \<open>>\<close>, \<open>|\<close> and whitespace has no match,
  so it gives no candidate. The form without brackets is recognized by \<open>enrich_message\<close> of
  the digest generator: for that bare URL it gives one profile, whose name is the whole run
  after \<open>/in/\<close> (the slug, together with any \<open>/\<close> and further path that follow it) and whose URL
  is \<open>https://linkedin.com/in/\<close> followed by that run.
\<close>

theorem extractor_recognizes_bracketed_links_only:
  "candidates (extract_candidates messages channel_name init_state)
     = concat (map (\<lambda>m. map (mk_candidate m channel_name) (finditer (get_text m))) messages)
   \<and> (slug \<noteq> [] \<and> (\<forall>c\<in>set slug. url_char c) \<and> label \<noteq> [] \<and> (\<forall>c\<in>set label. label_char c)
        \<longrightarrow> finditer (''<https://linkedin.com/in/'' @ slug @ ''|'' @ label @ ''>'')
              = [(''https://linkedin.com/in/'' @ slug, label)])
   \<and> (bare \<noteq> [] \<and> (\<forall>c\<in>set bare. profile_char c)
        \<longrightarrow> finditer (''https://linkedin.com/in/'' @ bare) = []
          \<and> linkedin_profiles (''https://linkedin.com/in/'' @ bare)
              = [\<lparr>p_name = bare, p_url = ''https://linkedin.com/in/'' @ bare\<rparr>])"
proof (intro conjI impI)
  show "candidates (extract_candidates messages channel_name init_state)
     = concat (map (\<lambda>m. map (mk_candidate m channel_name) (finditer (get_text m))) messages)"
    by (simp add: candidates_extract_candidates init_state_def)
next
  assume a: "slug \<noteq> [] \<and> (\<forall>c\<in>set slug. url_char c) \<and> label \<noteq> [] \<and> (\<forall>c\<in>set label. label_char c)"
  have "linkedin_match_at (''<https://linkedin.com/in/'' @ slug @ ''|'' @ label @ ''>'' @ [])
     = Some (''https://linkedin.com/in/'' @ slug, label, [])"
    using a by (intro linkedin_match_at_bracketed) simp_all
  then show "finditer (''<https://linkedin.com/in/'' @ slug @ ''|'' @ label @ ''>'')
              = [(''https://linkedin.com/in/'' @ slug, label)]"
    by simp
next
  assume b: "bare \<noteq> [] \<and> (\<forall>c\<in>set bare. profile_char c)"
  then have "CHR ''>'' \<notin> set (''https://linkedin.com/in/'' @ bare)"
    by (auto simp: profile_char_def)
  then show "finditer (''https://linkedin.com/in/'' @ bare) = []"
    by (rule finditer_no_closing_bracket)
next
  assume b: "bare \<noteq> [] \<and> (\<forall>c\<in>set bare. profile_char c)"
  then have "profile_match_at (''https://linkedin.com/in/'' @ bare) = Some (bare, None, [])"
    by (intro profile_match_at_bare) simp_all
  then show "linkedin_profiles (''https://linkedin.com/in/'' @ bare)
              = [\<lparr>p_name = bare, p_url = ''https://linkedin.com/in/'' @ bare\<rparr>]"
    by (simp add: linkedin_profiles_def)
qed

text \<open>
  Claim C5, as amended, at an example: a bracketed link, the bare URL of \<open>jdoe2\<close>, and the
  example corpus.
\<close>

theorem extractor_recognizes_bracketed_links_only_witness:
  "finditer (''<https://linkedin.com/in/'' @ ''jdoe'' @ ''|'' @ ''Jane Doe'' @ ''>'')
        = [(''https://linkedin.com/in/'' @ ''jdoe'', ''Jane Doe'')]
   \<and> finditer (''https://linkedin.com/in/'' @ ''jdoe2'') = []
   \<and> linkedin_profiles (''https://linkedin.com/in/'' @ ''jdoe2'')
        = [\<lparr>p_name = ''jdoe2'', p_url = ''https://linkedin.com/in/'' @ ''jdoe2''\<rparr>]
   \<and> candidates (extract_candidates ex_corpus ''clients'' init_state)
        = concat (map (\<lambda>m. map (mk_candidate m ''clients'') (finditer (get_text m))) ex_corpus)"
proof -
  have h1: "''jdoe'' \<noteq> [] \<and> (\<forall>c\<in>set ''jdoe''. url_char c) \<and> ''Jane Doe'' \<noteq> []
      \<and> (\<forall>c\<in>set ''Jane Doe''. label_char c)"
    by (simp add: url_char_def label_char_def)
  have h2: "''jdoe2'' \<noteq> [] \<and> (\<forall>c\<in>set ''jdoe2''. profile_char c)"
    by (simp add: profile_char_def is_space_def)
  show ?thesis
    using h1 h2 extractor_recognizes_bracketed_links_only
      [of ex_corpus "''clients''" "''jdoe''" "''Jane Doe''" "''jdoe2''"]
    by blast
qed

text \<open>
  Claim C5 as stated fails. A message whose text is a bare profile URL yields no candidate;
  \<open>enrich_message\<close> finds the profile and names it after the slug.
\<close>

theorem bare_url_yields_no_candidate:
  "candidates (extract_candidates [ex_bare] ''clients'' init_state) = []
   \<and> enrich_message_linkedin ex_bare
       = (Some [\<lparr>p_name = ''jdoe2'', p_url = ''https://linkedin.com/in/jdoe2''\<rparr>], Some True)"
  by code_simp

subsection \<open>Claim C6\<close>

text \<open>
  Claim C6. For an anchor message without replies the claim expects the line
  \<open>no feedback from client\<close> and an instruction line. The method that runs is the second
  definition of \<open>build_claude_context_by_candidate\<close>: it raises \<open>TypeError\<close> at its call of
  \<open>extract_candidates\<close>, and the block its loop body builds for such an anchor ends after the
  timestamp line. The fallback lines are written in the first definition only, which the second
  one replaces.
\<close>

theorem by_candidate_renders_no_fallback:
  "build_claude_context_by_candidate ex_tables [ex_anchor]
     = Inl (TypeError (''CandidateExtractor.extract_candidates() missing 1 required positional argument: ''
            @ single_quoted ''channel_name''))
   \<and> candidate_block ex_tables [ex_anchor] ex_anchor ex_candidate
     = ''Candidate: Jane Doe (https://linkedin.com/in/jdoe)'' @ nl @
       ''Submission: <https://linkedin.com/in/jdoe|Jane Doe>'' @ nl @
       ''Channel: None'' @ nl @ ''Submitted by: U1'' @ nl @ ''Timestamp: 100'' @ nl @ ''---''"
  by code_simp

subsection \<open>Claim C7\<close>

text \<open>
  Claim C7. A reply lies in the window and its root does not: the fetched messages hold the
  reply only. \<open>build_claude_context_with_all_thread_replies\<close> looks for the root among the
  fetched messages and skips the thread when it is not there: the result is the section
  header alone, without a parent line and without the reply.
\<close>

theorem thread_with_root_outside_window_is_dropped:
  "build_claude_context_with_all_thread_replies ex_llm_echo ex_collection_empty ex_tables ex_clock
       [ex_reply_small] ''status of Jane Doe'' 50
     = Inr (nl @ ''=== Thread Replies ==='')"
  by code_simp

subsection \<open>Claim C8\<close>




subsection \<open>Claim C9\<close>

text \<open>
  Claim C9. Without a start date \<open>get_date_range\<close> takes \<open>datetime.now(self.timezone)\<close>, which
  is aware, moves it to the Monday of the previous week, and hands it to \<open>localize\<close>, which
  accepts naive datetimes only: the call raises \<open>ValueError\<close> for every current time, every
  timezone and every end date, and no window is returned.
\<close>

theorem default_date_range_raises:
  "get_date_range tz strptime now PNone end_date_str
     = Inl (ValueError ''Not naive datetime (tzinfo is already set)'')"
  by (simp add: get_date_range_def truthy_def Let_def)

subsection \<open>Claim C10\<close>

text \<open>
  Claim C10. The messages have no \<open>id\<close> and each has a \<open>ts\<close>, so a candidate's
  \<open>message_id\<close> is the \<open>ts\<close> of its anchor. For every candidate extracted from a message \<open>a\<close>
  of the list that has no \<open>thread_ts\<close>, \<open>associate_direct_mentions\<close> appends \<open>a\<close> to the
  \<open>direct\<close> list of the candidate's URL: the text of \<open>a\<close> contains the URL, and the check
  against the anchor compares \<open>None\<close> with the \<open>ts\<close>.
\<close>

theorem anchor_counted_as_direct_mention:
  assumes no_id: "\<forall>m\<in>set messages. py_get (m_id m) = PNone"
    and has_ts: "\<forall>m\<in>set messages. py_get (m_ts m) \<noteq> PNone"
    and anchor: "a \<in> set messages" "mt \<in> set (finditer (get_text a))"
    and no_thread: "\<not> truthy (py_get (m_thread_ts a))"
  shows "\<exists>b. get_candidate_associations
              (associate_direct_mentions messages (extract_candidates messages channel_name init_state))
              (c_linkedin_url (mk_candidate a channel_name mt)) = Some b
           \<and> a \<in> set (b_direct b)"
proof -
  define s where "s = extract_candidates messages channel_name init_state"
  define url where "url = c_linkedin_url (mk_candidate a channel_name mt)"
  have fr: "fresh s"
    unfolding s_def by (intro fresh_extract_candidates fresh_init)
  have "url \<in> fst ` set (candidate_map s)"
    unfolding s_def url_def keys_extract_candidates using anchor by blast
  then obtain c where c: "(url, c) \<in> set (candidate_map s)"
    by auto
  have "from_messages messages channel_name s"
    unfolding s_def by (rule from_messages_extract_candidates)
  with c obtain a' mt' where a': "a' \<in> set messages" "c = mk_candidate a' channel_name mt'"
    by (fastforce simp: from_messages_def)
  have id_c: "c_message_id c = py_get (m_ts a')"
    using no_id a' by (simp add: mk_candidate_def py_or_def truthy_def)
  then have "c_message_id c \<noteq> PNone"
    using has_ts a' by simp
  then have ne: "py_get (m_id a) \<noteq> c_message_id c"
    using no_id anchor(1) by simp
  obtain g1 g2 where mt: "mt = (g1, g2)" by (cases mt)
  have "sublist g1 (get_text a)"
    using anchor(2) mt by (auto intro: finditer_sublist)
  moreover have "sublist url g1"
    by (simp add: url_def mk_candidate_def mt py_strip_sublist)
  ultimately have "sublist url (get_text a)"
    by (rule sublist_order.order.trans [rotated])
  with ne no_thread have "direct_cond a (url, c)"
    by (simp add: direct_cond_def)
  with c have hit: "a \<in> set (direct_hits a url (candidate_map s))"
    by (force simp: direct_hits_def)
  have "url \<in> fst ` set (associations s)"
  proof -
    have "map fst (associations s) = map fst (candidate_map s)"
      using fr by (metis fresh_def map_fst_anchor_list)
    then have "fst ` set (associations s) = fst ` set (candidate_map s)"
      by (metis set_map)
    with c show ?thesis by force
  qed
  then obtain b0 where b0: "map_of (associations s) url = Some b0"
    by (metis domD dom_map_of_conv_image_fst)
  let ?b = "b0\<lparr>b_direct := b_direct b0 @ concat (map (\<lambda>m. direct_hits m url (candidate_map s)) messages)\<rparr>"
  have "get_candidate_associations (associate_direct_mentions messages s) url = Some ?b"
    by (simp add: get_candidate_associations_def associate_direct_mentions_lookup b0)
  moreover have "a \<in> set (b_direct ?b)"
    using hit anchor(1) by auto
  ultimately show ?thesis
    unfolding s_def url_def by blast
qed

text \<open>
  Claim C10, at the example corpus.
\<close>

theorem anchor_counted_as_direct_mention_witness:
  "ex_anchor \<in> set ex_corpus
   \<and> (ex_url, ''Jane Doe'') \<in> set (finditer (get_text ex_anchor))
   \<and> \<not> truthy (py_get (m_thread_ts ex_anchor))
   \<and> (\<exists>b. get_candidate_associations
              (associate_direct_mentions ex_corpus (extract_candidates ex_corpus ''clients'' init_state))
              (c_linkedin_url (mk_candidate ex_anchor ''clients'' (ex_url, ''Jane Doe''))) = Some b
           \<and> ex_anchor \<in> set (b_direct b))"
proof -
  have h1: "\<forall>m\<in>set ex_corpus. py_get (m_id m) = PNone"
    by code_simp
  have h2: "\<forall>m\<in>set ex_corpus. py_get (m_ts m) \<noteq> PNone"
    by code_simp
  have h3: "ex_anchor \<in> set ex_corpus"
    by (simp add: ex_corpus_def)
  have h4: "(ex_url, ''Jane Doe'') \<in> set (finditer (get_text ex_anchor))"
    by code_simp
  have h5: "\<not> truthy (py_get (m_thread_ts ex_anchor))"
    by code_simp
  show ?thesis
    using h3 h4 h5 anchor_counted_as_direct_mention [OF h1 h2 h3 h4 h5, of "''clients''"]
    by blast
qed

end
